theory Spec2Isabelle
  imports Main
begin

section \<open>Data model of the reaction network (KingAltmann.py)\<close>

text \<open>
  The names of states and rates are what sympy's \<^verbatim>\<open>symbols(name)\<close> returns for the string
  given to the constructor. That is a \<^verbatim>\<open>Symbol\<close>, compared and printed by its name, or,
  when the string holds several names or a range, a tuple of \<^verbatim>\<open>Symbol\<close>s. \<^verbatim>\<open>symbols\<close>
  is not part of this module: the constructors take it as a parameter, a function from
  the argument string to the identifier it returns or to the \<^verbatim>\<open>ValueError\<close> it raises.
\<close>

datatype ident = Symbol string | SymbolTuple "string list"

record Enzymestate =
  enzyme :: ident

record ReactionRate =
  name :: ident
  reactant :: "ident option"

record UnitReaction =
  from_state :: Enzymestate
  to_state :: Enzymestate
  rate :: ReactionRate

record BiDirReaction =
  fwd_reaction :: UnitReaction
  rev_reaction :: UnitReaction

record Reactions =
  reactions :: "UnitReaction list"
  enzymeStates :: "Enzymestate list"
  bidirectionalRates :: "BiDirReaction list"

text \<open>
  The exceptions of the source. The four \<^verbatim>\<open>AttributeError\<close>s are told apart by their
  message:
  \<^item> \<open>DuplicateRate\<close>: "rate constant already defined" (\<^verbatim>\<open>addReaction\<close>);
  \<^item> \<open>DuplicateRateInEdge\<close>: "Added a unitreaction with the same rate constant a second
    time" (\<^verbatim>\<open>_add_bidirectionalRates\<close>);
  \<^item> \<open>MultipleReverseReactions\<close>: "more than 1 reverse Reaction defined"
    (\<^verbatim>\<open>reverse_Reaction\<close>);
  \<^item> \<open>MultipleMatchingReactions\<close>: "more than 1 reaction with identical reactants
    defined" (\<^verbatim>\<open>reaction_from_Reactants\<close>);
  \<^item> \<open>IndexError\<close>: raised by Python itself for \<^verbatim>\<open>[...][0]\<close> on an empty list
    (\<^verbatim>\<open>linear_graph_matrix\<close>);
  \<^item> \<open>ValueError\<close>: what \<^verbatim>\<open>symbols\<close> raises, passed on by the constructors;
  \<^item> \<open>TypeError\<close>: raised by Python itself for \<^verbatim>\<open>hash\<close> of an unhashable object.
\<close>

datatype error =
    DuplicateRate
  | DuplicateRateInEdge
  | MultipleReverseReactions
  | MultipleMatchingReactions
  | IndexError
  | ValueError
  | TypeError

subsection \<open>Enzymestate, ReactionRate\<close>

text \<open>
  Printing and truth value of an identifier, as Python gives them: a \<^verbatim>\<open>Symbol\<close> prints
  as its name and is truthy; a tuple prints its elements between parentheses, separated
  by a comma and a blank (a single element is followed by a comma), and is truthy unless
  empty.
\<close>

fun join_names :: "string list \<Rightarrow> string" where
  "join_names [] = []"
| "join_names [a] = a"
| "join_names (a # b # bs) = a @ '', '' @ join_names (b # bs)"

fun ident_str :: "ident \<Rightarrow> string" where
  "ident_str (Symbol nm) = nm"
| "ident_str (SymbolTuple [a]) = ''('' @ a @ '',)''"
| "ident_str (SymbolTuple ns) = ''('' @ join_names ns @ '')''"

fun ident_truthy :: "ident \<Rightarrow> bool" where
  "ident_truthy (Symbol nm) = True"
| "ident_truthy (SymbolTuple ns) = (ns \<noteq> [])"

definition Enzymestate_init :: "(string \<Rightarrow> error + ident) \<Rightarrow> string \<Rightarrow> error + Enzymestate" where
  "Enzymestate_init symbols nm =
     (case symbols nm of
        Inl e \<Rightarrow> Inl e
      | Inr s \<Rightarrow> Inr \<lparr>enzyme = s\<rparr>)"

definition Enzymestate_str :: "Enzymestate \<Rightarrow> string" where
  "Enzymestate_str e = ident_str (enzyme e)"

text \<open>\<^verbatim>\<open>Enzymestate.__eq__\<close> compares the identifiers, which is equality of the record.\<close>

definition Enzymestate_eq :: "Enzymestate \<Rightarrow> Enzymestate \<Rightarrow> bool" where
  "Enzymestate_eq a b = (enzyme a = enzyme b)"

text \<open>
  \<^verbatim>\<open>ReactionRate(name, pseudoFirstOrderReactant=None)\<close>: \<^verbatim>\<open>symbols\<close> is applied to the
  reactant only when the argument is truthy, that is, given and not the empty string.
\<close>

definition ReactionRate_init ::
  "(string \<Rightarrow> error + ident) \<Rightarrow> string \<Rightarrow> string option \<Rightarrow> error + ReactionRate" where
  "ReactionRate_init symbols nm pseudoFirstOrderReactant =
     (case symbols nm of
        Inl e \<Rightarrow> Inl e
      | Inr s \<Rightarrow>
          (case pseudoFirstOrderReactant of
             None \<Rightarrow> Inr \<lparr>name = s, reactant = None\<rparr>
           | Some a \<Rightarrow>
               if a = [] then Inr \<lparr>name = s, reactant = None\<rparr>
               else (case symbols a of
                       Inl e \<Rightarrow> Inl e
                     | Inr t \<Rightarrow> Inr \<lparr>name = s, reactant = Some t\<rparr>)))"

definition ReactionRate_str :: "ReactionRate \<Rightarrow> string" where
  "ReactionRate_str r =
     (case reactant r of
        Some a \<Rightarrow> if ident_truthy a then ident_str (name r) @ ''['' @ ident_str a @ '']''
                 else ident_str (name r)
      | None \<Rightarrow> ident_str (name r))"

text \<open>
  The class defines \<^verbatim>\<open>__eq__\<close> and no \<^verbatim>\<open>__hash__\<close>: Python then sets \<^verbatim>\<open>__hash__\<close> to
  \<^verbatim>\<open>None\<close>, and \<^verbatim>\<open>hash\<close> of a rate raises \<^verbatim>\<open>TypeError\<close>.
\<close>

definition ReactionRate_hash :: "ReactionRate \<Rightarrow> error + int" where
  "ReactionRate_hash r = Inl TypeError"

definition ReactionRate_eq :: "ReactionRate \<Rightarrow> ReactionRate \<Rightarrow> bool" where
  "ReactionRate_eq a b = (name a = name b)"

subsection \<open>UnitReaction, BiDirReaction\<close>

definition UnitReaction_init :: "Enzymestate \<Rightarrow> ReactionRate \<Rightarrow> Enzymestate \<Rightarrow> UnitReaction" where
  "UnitReaction_init from_State rt to_State =
     \<lparr>from_state = from_State, to_state = to_State, rate = rt\<rparr>"

definition UnitReaction_eq :: "UnitReaction \<Rightarrow> UnitReaction \<Rightarrow> bool" where
  "UnitReaction_eq a b =
     (Enzymestate_eq (from_state a) (from_state b)
      \<and> Enzymestate_eq (to_state a) (to_state b)
      \<and> ReactionRate_eq (rate a) (rate b))"

definition BiDirReaction_init :: "UnitReaction \<Rightarrow> UnitReaction \<Rightarrow> BiDirReaction" where
  "BiDirReaction_init fwd_r rev_r = \<lparr>fwd_reaction = fwd_r, rev_reaction = rev_r\<rparr>"

text \<open>A rate or reaction object is always truthy; only \<^verbatim>\<open>None\<close> takes the early return.\<close>

fun contains_Rate :: "BiDirReaction \<Rightarrow> ReactionRate option \<Rightarrow> bool" where
  "contains_Rate bi None = False"
| "contains_Rate bi (Some rt) =
     (ReactionRate_eq rt (rate (fwd_reaction bi)) \<or> ReactionRate_eq rt (rate (rev_reaction bi)))"

fun contains_reaction :: "BiDirReaction \<Rightarrow> UnitReaction option \<Rightarrow> bool" where
  "contains_reaction bi None = False"
| "contains_reaction bi (Some reaction) =
     (UnitReaction_eq reaction (fwd_reaction bi) \<or> UnitReaction_eq reaction (rev_reaction bi))"

definition BiDirReaction_str :: "BiDirReaction \<Rightarrow> string" where
  "BiDirReaction_str bi =
     ReactionRate_str (rate (fwd_reaction bi)) @ ''//'' @ ReactionRate_str (rate (rev_reaction bi))"

section \<open>The network: class Reactions\<close>

definition Reactions_init :: Reactions where
  "Reactions_init = \<lparr>reactions = [], enzymeStates = [], bidirectionalRates = []\<rparr>"

definition reaction_from_Rate :: "ReactionRate \<Rightarrow> Reactions \<Rightarrow> UnitReaction list" where
  "reaction_from_Rate rt net = filter (\<lambda>reac. ReactionRate_eq (rate reac) rt) (reactions net)"

definition produced_by :: "Enzymestate \<Rightarrow> Reactions \<Rightarrow> UnitReaction list" where
  "produced_by e net = filter (\<lambda>react. Enzymestate_eq (to_state react) e) (reactions net)"

definition consumed_by :: "Enzymestate \<Rightarrow> Reactions \<Rightarrow> UnitReaction list" where
  "consumed_by e net = filter (\<lambda>react. Enzymestate_eq (from_state react) e) (reactions net)"

definition reverse_Reaction :: "UnitReaction \<Rightarrow> Reactions \<Rightarrow> error + UnitReaction option" where
  "reverse_Reaction reaction net =
     (let fwdSub = from_state reaction;
          fwdProd = to_state reaction;
          rs = consumed_by fwdProd net;
          reverseReact = filter (\<lambda>react. Enzymestate_eq (to_state react) fwdSub) rs
      in if length reverseReact = 0 then Inr None
         else if length reverseReact = 1 then Inr (Some (reverseReact ! 0))
         else Inl MultipleReverseReactions)"

definition reaction_from_Reactants ::
  "Enzymestate \<Rightarrow> Enzymestate \<Rightarrow> Reactions \<Rightarrow> error + UnitReaction option" where
  "reaction_from_Reactants fs ts net =
     (let res = filter (\<lambda>reaction. Enzymestate_eq (from_state reaction) fs
                                   \<and> Enzymestate_eq (to_state reaction) ts) (reactions net)
      in if length res = 0 then Inr None
         else if length res > 1 then Inl MultipleMatchingReactions
         else Inr (Some (res ! 0)))"

text \<open>
  The mutating methods take the network and return the outcome of the call together
  with the network as the call leaves it: an exception does not undo the appends made
  before it was raised.
\<close>

definition add_enzymeStates :: "UnitReaction \<Rightarrow> Reactions \<Rightarrow> Reactions" where
  "add_enzymeStates u net =
     fold (\<lambda>e n. if list_ex (\<lambda>x. Enzymestate_eq e x) (enzymeStates n) then n
                 else n\<lparr>enzymeStates := enzymeStates n @ [e]\<rparr>)
          [from_state u, to_state u] net"

definition add_bidirectionalRates :: "UnitReaction \<Rightarrow> Reactions \<Rightarrow> (error + unit) \<times> Reactions" where
  "add_bidirectionalRates reaction net =
     (if list_ex (\<lambda>bi. contains_reaction bi (Some reaction)) (bidirectionalRates net)
      then (Inl DuplicateRateInEdge, net)
      else (case reverse_Reaction reaction net of
              Inl e \<Rightarrow> (Inl e, net)
            | Inr None \<Rightarrow> (Inr (), net)
            | Inr (Some reverseReaction) \<Rightarrow>
                (Inr (), net\<lparr>bidirectionalRates :=
                               bidirectionalRates net @ [BiDirReaction_init reaction reverseReaction]\<rparr>)))"

definition addReaction :: "UnitReaction \<Rightarrow> Reactions \<Rightarrow> (error + unit) \<times> Reactions" where
  "addReaction reaction net =
     (if length (reaction_from_Rate (rate reaction) net) > 0 then (Inl DuplicateRate, net)
      else add_bidirectionalRates reaction
             (add_enzymeStates reaction (net\<lparr>reactions := reactions net @ [reaction]\<rparr>)))"

text \<open>
  The driver of the module feeds the parsed reactions to \<^verbatim>\<open>addReaction\<close> one at a time,
  in input order; the first exception ends the run.
\<close>

fun addReactions :: "UnitReaction list \<Rightarrow> Reactions \<Rightarrow> (error + unit) \<times> Reactions" where
  "addReactions [] net = (Inr (), net)"
| "addReactions (r # rs) net =
     (case addReaction r net of
        (Inl e, net') \<Rightarrow> (Inl e, net')
      | (Inr u, net') \<Rightarrow> addReactions rs net')"

subsection \<open>The two matrices\<close>

text \<open>
  A \<^verbatim>\<open>for\<close> loop over a list whose body may raise: the state is threaded through the
  iterations and the first exception ends the loop.
\<close>

fun for_each :: "'a list \<Rightarrow> ('a \<Rightarrow> 's \<Rightarrow> error + 's) \<Rightarrow> 's \<Rightarrow> error + 's" where
  "for_each [] body s = Inr s"
| "for_each (x # xs) body s =
     (case body x s of Inl e \<Rightarrow> Inl e | Inr s' \<Rightarrow> for_each xs body s')"

text \<open>
  \<^verbatim>\<open>res[i][j] = v\<close>. Both loops run over \<^verbatim>\<open>enumerate(self._enzymeStates)\<close> and the table
  has one row and one column per state, so the indices are always in range.
\<close>

definition set_cell :: "nat \<Rightarrow> nat \<Rightarrow> 'a \<Rightarrow> 'a list list \<Rightarrow> 'a list list" where
  "set_cell i j v res = res[i := (res ! i)[j := v]]"

definition kinetic_matrix :: "Reactions \<Rightarrow> error + ReactionRate option list list" where
  "kinetic_matrix net =
     (let es = enzymeStates net;
          res0 = map (\<lambda>_. map (\<lambda>_. None) es) es
      in for_each (enumerate 0 es) (\<lambda>(n_es1, es1) res.
           for_each (enumerate 0 es) (\<lambda>(n_es2, es2) res.
             (case reaction_from_Reactants es1 es2 net of
                Inl e \<Rightarrow> Inl e
              | Inr reac \<Rightarrow>
                  Inr (set_cell n_es1 n_es2
                         (case reac of Some r \<Rightarrow> Some (rate r) | None \<Rightarrow> None) res))) res) res0)"

text \<open>
  The cells of the linear graph matrix hold the very objects of
  \<^verbatim>\<open>self._bidirectionalRates\<close>. That list is only ever appended to, each time with a
  freshly constructed object, so an object is identified by its position in the list:
  a cell holds the position, and two cells reference the same object exactly when they
  hold the same position.
\<close>

type_synonym BiDirReaction_ref = nat

definition matching_edges :: "ReactionRate \<Rightarrow> Reactions \<Rightarrow> BiDirReaction_ref list" where
  "matching_edges k net =
     filter (\<lambda>a. contains_Rate (bidirectionalRates net ! a) (Some k))
            [0 ..< length (bidirectionalRates net)]"

definition linear_graph_cell ::
  "ReactionRate option \<Rightarrow> Reactions \<Rightarrow> error + BiDirReaction_ref option" where
  "linear_graph_cell kin net =
     (case kin of
        None \<Rightarrow> Inr None
      | Some k \<Rightarrow> (case matching_edges k net of
                    [] \<Rightarrow> Inl IndexError
                  | a # _ \<Rightarrow> Inr (Some a)))"

definition linear_graph_matrix :: "Reactions \<Rightarrow> error + BiDirReaction_ref option list list" where
  "linear_graph_matrix net =
     (case kinetic_matrix net of
        Inl e \<Rightarrow> Inl e
      | Inr kin_matrix \<Rightarrow>
          (let es = enzymeStates net;
               res0 = map (\<lambda>_. map (\<lambda>_. None) es) es
           in for_each (enumerate 0 es) (\<lambda>(n_es1, _) res.
                for_each (enumerate 0 es) (\<lambda>(n_es2, _) res.
                  (case linear_graph_cell (kin_matrix ! n_es1 ! n_es2) net of
                     Inl e \<Rightarrow> Inl e
                   | Inr v \<Rightarrow> Inr (set_cell n_es1 n_es2 v res))) res) res0))"

subsection \<open>The example networks of the specification\<close>

text \<open>
  The objects that \<^verbatim>\<open>Enzymestate("E")\<close>, \<^verbatim>\<open>ReactionRate("k1")\<close>, \<^verbatim>\<open>ReactionRate("k1", "A")\<close>
  and so on build: on a name made of letters, digits and \<^verbatim>\<open>-\<close> only, as all names of the
  examples are, \<^verbatim>\<open>symbols\<close> returns the \<^verbatim>\<open>Symbol\<close> of that name.
\<close>

definition st_E :: Enzymestate where "st_E = \<lparr>enzyme = Symbol ''E''\<rparr>"
definition st_EA :: Enzymestate where "st_EA = \<lparr>enzyme = Symbol ''EA''\<rparr>"

definition R1 :: UnitReaction where
  "R1 = UnitReaction_init st_E \<lparr>name = Symbol ''k1'', reactant = None\<rparr> st_EA"

definition R2 :: UnitReaction where
  "R2 = UnitReaction_init st_EA \<lparr>name = Symbol ''k-1'', reactant = None\<rparr> st_E"

definition R1_again :: UnitReaction where
  "R1_again = UnitReaction_init st_EA \<lparr>name = Symbol ''k1'', reactant = Some (Symbol ''A'')\<rparr> st_E"

definition net_R1 :: Reactions where
  "net_R1 = snd (addReactions [R1] Reactions_init)"

definition net_R1_R2 :: Reactions where
  "net_R1_R2 = snd (addReactions [R1, R2] Reactions_init)"

definition net_R2_R1 :: Reactions where
  "net_R2_R1 = snd (addReactions [R2, R1] Reactions_init)"

definition st_A :: Enzymestate where "st_A = \<lparr>enzyme = Symbol ''A''\<rparr>"
definition st_B :: Enzymestate where "st_B = \<lparr>enzyme = Symbol ''B''\<rparr>"
definition st_C :: Enzymestate where "st_C = \<lparr>enzyme = Symbol ''C''\<rparr>"

definition R_AB :: UnitReaction where
  "R_AB = UnitReaction_init st_A \<lparr>name = Symbol ''kAB'', reactant = None\<rparr> st_B"

definition R_BC :: UnitReaction where
  "R_BC = UnitReaction_init st_B \<lparr>name = Symbol ''kBC'', reactant = None\<rparr> st_C"

definition R_CA :: UnitReaction where
  "R_CA = UnitReaction_init st_C \<lparr>name = Symbol ''kCA'', reactant = None\<rparr> st_A"

definition net_cycle :: Reactions where
  "net_cycle = snd (addReactions [R_AB, R_BC, R_CA] Reactions_init)"

subsection \<open>Notions of the specification\<close>

text \<open>
  The states mentioned by a sequence of reactions, in reading order (source before
  destination), and the first occurrences of a sequence in order of appearance: these
  follow the specification's words "the order in which new state names are first
  encountered", not the code.
\<close>

definition states_mentioned :: "UnitReaction list \<Rightarrow> Enzymestate list" where
  "states_mentioned rs = concat (map (\<lambda>r. [from_state r, to_state r]) rs)"

fun first_seen :: "'a list \<Rightarrow> 'a list" where
  "first_seen [] = []"
| "first_seen (x # xs) = x # filter (\<lambda>y. y \<noteq> x) (first_seen xs)"

text \<open>The number of bidirectional edges that have a given reaction as one of their legs.\<close>

definition edges_with :: "UnitReaction \<Rightarrow> Reactions \<Rightarrow> nat" where
  "edges_with r net =
     length (filter (\<lambda>bi. contains_reaction bi (Some r)) (bidirectionalRates net))"

text \<open>
  The network in the middle of \<^verbatim>\<open>addReaction\<close>: the reaction and its states are
  appended, the pairing has not run yet.
\<close>

definition staged :: "UnitReaction \<Rightarrow> Reactions \<Rightarrow> Reactions" where
  "staged r net = add_enzymeStates r (net\<lparr>reactions := reactions net @ [r]\<rparr>)"

definition R2_parallel :: UnitReaction where
  "R2_parallel = UnitReaction_init st_EA \<lparr>name = Symbol ''k-2'', reactant = None\<rparr> st_E"

definition net_parallel :: Reactions where
  "net_parallel = snd (addReactions [R1, R2, R2_parallel] Reactions_init)"

definition R_loop :: UnitReaction where
  "R_loop = UnitReaction_init st_E \<lparr>name = Symbol ''k1'', reactant = None\<rparr> st_E"

definition R_loop2 :: UnitReaction where
  "R_loop2 = UnitReaction_init st_E \<lparr>name = Symbol ''k2'', reactant = None\<rparr> st_E"

definition net_loop :: Reactions where
  "net_loop = snd (addReactions [R_loop] Reactions_init)"

text \<open>
  The cell of the kinetic matrix as the specification words it: the rate of the reaction
  from \<open>a\<close> to \<open>b\<close> if one exists, else absent; and the condition under which "the"
  reaction is well defined for every pair of states (invariant I2 on the states).
\<close>

definition kcell :: "Reactions \<Rightarrow> Enzymestate \<Rightarrow> Enzymestate \<Rightarrow> ReactionRate option" where
  "kcell net a b =
     (case filter (\<lambda>x. from_state x = a \<and> to_state x = b) (reactions net) of
        [] \<Rightarrow> None | m # _ \<Rightarrow> Some (rate m))"

definition unique_endpoints :: "Reactions \<Rightarrow> bool" where
  "unique_endpoints net =
     (\<forall>a\<in>set (enzymeStates net). \<forall>b\<in>set (enzymeStates net).
        length (filter (\<lambda>x. from_state x = a \<and> to_state x = b) (reactions net)) \<le> 1)"

section \<open>Properties\<close>

subsection \<open>Basic facts\<close>

lemma Enzymestate_eq_iff [simp]: "Enzymestate_eq a b = (a = b)"
  by (cases a, cases b) (simp add: Enzymestate_eq_def)

lemma filter_length_cases:
  "(if length xs = 0 then a else if length xs = 1 then f (xs ! 0) else c)
     = (case xs of [] \<Rightarrow> a | [m] \<Rightarrow> f m | _ \<Rightarrow> c)"
  by (cases xs; simp split: list.splits)

lemma reverse_filter:
  "filter (\<lambda>react. Enzymestate_eq (to_state react) (from_state reaction))
          (consumed_by (to_state reaction) net)
     = filter (\<lambda>x. from_state x = to_state reaction \<and> to_state x = from_state reaction)
              (reactions net)"
  by (simp add: consumed_by_def conj_commute)

lemma reverse_Reaction_eq:
  "reverse_Reaction reaction net =
     (case filter (\<lambda>x. from_state x = to_state reaction \<and> to_state x = from_state reaction)
                  (reactions net) of
        [] \<Rightarrow> Inr None
      | [m] \<Rightarrow> Inr (Some m)
      | _ \<Rightarrow> Inl MultipleReverseReactions)"
  unfolding reverse_Reaction_def Let_def reverse_filter
  by (rule filter_length_cases)

lemma net_R1_eq:
  "net_R1 = \<lparr>reactions = [R1], enzymeStates = [st_E, st_EA], bidirectionalRates = []\<rparr>"
  by (simp add: net_R1_def addReaction_def add_bidirectionalRates_def add_enzymeStates_def
      reverse_Reaction_def consumed_by_def reaction_from_Rate_def Reactions_init_def
      R1_def UnitReaction_init_def st_E_def st_EA_def)

lemmas net_defs = addReaction_def add_bidirectionalRates_def add_enzymeStates_def
  reverse_Reaction_def consumed_by_def reaction_from_Rate_def Reactions_init_def
  UnitReaction_init_def BiDirReaction_init_def
  UnitReaction_eq_def ReactionRate_eq_def

lemmas matrix_defs = kinetic_matrix_def linear_graph_matrix_def linear_graph_cell_def
  matching_edges_def reaction_from_Reactants_def set_cell_def enumerate_eq_zip upt_rec

lemmas example_defs = R1_def R2_def st_E_def st_EA_def R_AB_def R_BC_def R_CA_def
  st_A_def st_B_def st_C_def R2_parallel_def R_loop_def R_loop2_def

lemma add_R1_R2:
  "addReactions [R1, R2] Reactions_init =
     (Inr (), \<lparr>reactions = [R1, R2], enzymeStates = [st_E, st_EA],
               bidirectionalRates = [BiDirReaction_init R2 R1]\<rparr>)"
  by (simp add: net_defs example_defs)

lemma add_R2_R1:
  "addReactions [R2, R1] Reactions_init =
     (Inr (), \<lparr>reactions = [R2, R1], enzymeStates = [st_EA, st_E],
               bidirectionalRates = [BiDirReaction_init R1 R2]\<rparr>)"
  by (simp add: net_defs example_defs)

lemma add_cycle:
  "addReactions [R_AB, R_BC, R_CA] Reactions_init =
     (Inr (), \<lparr>reactions = [R_AB, R_BC, R_CA], enzymeStates = [st_A, st_B, st_C],
               bidirectionalRates = []\<rparr>)"
  by (simp add: net_defs example_defs)

lemma net_R1_R2_eq:
  "net_R1_R2 = \<lparr>reactions = [R1, R2], enzymeStates = [st_E, st_EA],
                 bidirectionalRates = [BiDirReaction_init R2 R1]\<rparr>"
  unfolding net_R1_R2_def add_R1_R2 by simp

lemma net_R2_R1_eq:
  "net_R2_R1 = \<lparr>reactions = [R2, R1], enzymeStates = [st_EA, st_E],
                 bidirectionalRates = [BiDirReaction_init R1 R2]\<rparr>"
  unfolding net_R2_R1_def add_R2_R1 by simp

lemma net_cycle_eq:
  "net_cycle = \<lparr>reactions = [R_AB, R_BC, R_CA], enzymeStates = [st_A, st_B, st_C],
                 bidirectionalRates = []\<rparr>"
  unfolding net_cycle_def add_cycle by simp

lemma kinetic_matrix_net_R1:
  "kinetic_matrix net_R1 = Inr [[None, Some (rate R1)], [None, None]]"
  by (simp add: net_R1_eq matrix_defs example_defs UnitReaction_init_def)

lemma linear_graph_matrix_net_R1: "linear_graph_matrix net_R1 = Inl IndexError"
  by (simp add: net_R1_eq matrix_defs example_defs UnitReaction_init_def)

lemma kinetic_matrix_net_cycle:
  "kinetic_matrix net_cycle =
     Inr [[None, Some (rate R_AB), None],
          [None, None, Some (rate R_BC)],
          [Some (rate R_CA), None, None]]"
  by (simp add: net_cycle_eq matrix_defs example_defs net_defs)

lemma linear_graph_matrix_net_cycle: "linear_graph_matrix net_cycle = Inl IndexError"
  by (simp add: net_cycle_eq matrix_defs example_defs net_defs)

lemma linear_graph_matrix_net_R1_R2:
  "linear_graph_matrix net_R1_R2 = Inr [[None, Some 0], [Some 0, None]]"
  by (simp add: net_R1_R2_eq matrix_defs example_defs net_defs)

lemma linear_graph_matrix_net_R2_R1:
  "linear_graph_matrix net_R2_R1 = Inr [[None, Some 0], [Some 0, None]]"
  by (simp add: net_R2_R1_eq matrix_defs example_defs net_defs)

subsection \<open>One call of addReaction, and a run of calls\<close>

lemma addReactions_append:
  "addReactions (xs @ ys) net =
     (case addReactions xs net of (Inl e, n) \<Rightarrow> (Inl e, n) | (Inr u, n) \<Rightarrow> addReactions ys n)"
  by (induction xs arbitrary: net) (auto split: prod.splits sum.splits)

lemma addReactions_snoc_Inr:
  "addReactions (rs @ [r]) net0 = (Inr (), net') \<longleftrightarrow>
     (\<exists>net. addReactions rs net0 = (Inr (), net) \<and> addReaction r net = (Inr (), net'))"
  by (auto simp: addReactions_append split: prod.splits sum.splits)

lemma add_enzymeStates_eq:
  "add_enzymeStates u n =
     n\<lparr>enzymeStates := enzymeStates n
          @ filter (\<lambda>y. y \<notin> set (enzymeStates n)) (first_seen [from_state u, to_state u])\<rparr>"
  by (auto simp: add_enzymeStates_def list_ex_iff)

lemma reaction_from_Rate_empty:
  "(length (reaction_from_Rate (rate r) net) > 0)
     = (\<exists>x\<in>set (reactions net). name (rate x) = name (rate r))"
  by (auto simp: reaction_from_Rate_def filter_empty_conv ReactionRate_eq_def)

lemma add_bidirectionalRates_eq:
  "add_bidirectionalRates r n =
     (if \<exists>bi\<in>set (bidirectionalRates n). contains_reaction bi (Some r)
      then (Inl DuplicateRateInEdge, n)
      else (case filter (\<lambda>x. from_state x = to_state r \<and> to_state x = from_state r) (reactions n) of
              [] \<Rightarrow> (Inr (), n)
            | [m] \<Rightarrow> (Inr (), n\<lparr>bidirectionalRates := bidirectionalRates n @ [BiDirReaction_init r m]\<rparr>)
            | _ \<Rightarrow> (Inl MultipleReverseReactions, n)))"
  unfolding add_bidirectionalRates_def reverse_Reaction_eq list_ex_iff
  by (simp split: list.split)

lemma staged_fields:
  "reactions (staged r net) = reactions net @ [r]"
  "bidirectionalRates (staged r net) = bidirectionalRates net"
  "enzymeStates (staged r net) = enzymeStates net
     @ filter (\<lambda>y. y \<notin> set (enzymeStates net)) (first_seen [from_state r, to_state r])"
  by (simp_all add: staged_def add_enzymeStates_eq)

lemma addReaction_staged:
  "addReaction r net =
     (if \<exists>x\<in>set (reactions net). name (rate x) = name (rate r) then (Inl DuplicateRate, net)
      else add_bidirectionalRates r (staged r net))"
  unfolding addReaction_def reaction_from_Rate_empty staged_def by simp


lemma short_list_cases: "length xs \<le> 1 \<Longrightarrow> xs = [] \<or> (\<exists>m. xs = [m])"
  by (cases xs; cases "tl xs") auto

lemma add_bidirectionalRates_InrD:
  assumes "add_bidirectionalRates r n = (Inr (), n')"
  shows "\<forall>bi\<in>set (bidirectionalRates n). \<not> contains_reaction bi (Some r)"
    and "(filter (\<lambda>x. from_state x = to_state r \<and> to_state x = from_state r) (reactions n) = []
            \<and> n' = n)
         \<or> (\<exists>m. filter (\<lambda>x. from_state x = to_state r \<and> to_state x = from_state r) (reactions n) = [m]
            \<and> n' = n\<lparr>bidirectionalRates := bidirectionalRates n @ [BiDirReaction_init r m]\<rparr>)"
proof -
  let ?ms = "filter (\<lambda>x. from_state x = to_state r \<and> to_state x = from_state r) (reactions n)"
  show noedge: "\<forall>bi\<in>set (bidirectionalRates n). \<not> contains_reaction bi (Some r)"
    using assms unfolding add_bidirectionalRates_eq by (simp split: if_splits)
  then have e: "(case ?ms of
              [] \<Rightarrow> (Inr (), n)
            | [m] \<Rightarrow> (Inr (), n\<lparr>bidirectionalRates := bidirectionalRates n @ [BiDirReaction_init r m]\<rparr>)
            | _ \<Rightarrow> (Inl MultipleReverseReactions, n)) = (Inr (), n')"
    using assms unfolding add_bidirectionalRates_eq by (simp split: if_splits)
  show "(?ms = [] \<and> n' = n)
         \<or> (\<exists>m. ?ms = [m]
            \<and> n' = n\<lparr>bidirectionalRates := bidirectionalRates n @ [BiDirReaction_init r m]\<rparr>)"
  proof (cases ?ms)
    case Nil
    then show ?thesis using e by simp
  next
    case (Cons m ms)
    show ?thesis
    proof (cases ms)
      case Nil
      then show ?thesis using e Cons by simp
    next
      case (Cons a as)
      then show ?thesis using e \<open>?ms = m # ms\<close> by simp
    qed
  qed
qed

lemma addReaction_InrD:
  assumes "addReaction r net = (Inr (), net')"
  shows "reactions net' = reactions net @ [r]"
    and "enzymeStates net' = enzymeStates net
           @ filter (\<lambda>y. y \<notin> set (enzymeStates net)) (first_seen [from_state r, to_state r])"
    and "\<forall>x\<in>set (reactions net). name (rate x) \<noteq> name (rate r)"
    and "\<forall>bi\<in>set (bidirectionalRates net). \<not> contains_reaction bi (Some r)"
    and "(filter (\<lambda>x. from_state x = to_state r \<and> to_state x = from_state r) (reactions net @ [r]) = []
            \<and> bidirectionalRates net' = bidirectionalRates net)
         \<or> (\<exists>m. filter (\<lambda>x. from_state x = to_state r \<and> to_state x = from_state r) (reactions net @ [r]) = [m]
            \<and> bidirectionalRates net' = bidirectionalRates net @ [BiDirReaction_init r m])"
proof -
  have fresh: "\<not> (\<exists>x\<in>set (reactions net). name (rate x) = name (rate r))"
    using assms unfolding addReaction_staged by (simp split: if_splits)
  then have ab: "add_bidirectionalRates r (staged r net) = (Inr (), net')"
    using assms unfolding addReaction_staged by simp
  note d = add_bidirectionalRates_InrD [OF ab, unfolded staged_fields]
  show "\<forall>x\<in>set (reactions net). name (rate x) \<noteq> name (rate r)"
    using fresh by blast
  show "\<forall>bi\<in>set (bidirectionalRates net). \<not> contains_reaction bi (Some r)"
    by (rule d(1))
  from d(2) show "reactions net' = reactions net @ [r]"
  proof (elim disjE conjE exE)
    assume "net' = staged r net" then show ?thesis by (simp only: staged_fields)
  next
    fix m assume "net' = (staged r net)\<lparr>bidirectionalRates := bidirectionalRates net @ [BiDirReaction_init r m]\<rparr>"
    then show ?thesis by (simp add: staged_fields(1))
  qed
  from d(2) show "enzymeStates net' = enzymeStates net
           @ filter (\<lambda>y. y \<notin> set (enzymeStates net)) (first_seen [from_state r, to_state r])"
  proof (elim disjE conjE exE)
    assume "net' = staged r net" then show ?thesis by (simp only: staged_fields)
  next
    fix m assume "net' = (staged r net)\<lparr>bidirectionalRates := bidirectionalRates net @ [BiDirReaction_init r m]\<rparr>"
    then have "enzymeStates net' = enzymeStates (staged r net)" by simp
    then show ?thesis by (simp only: staged_fields)
  qed
  from d(2) show "(filter (\<lambda>x. from_state x = to_state r \<and> to_state x = from_state r) (reactions net @ [r]) = []
            \<and> bidirectionalRates net' = bidirectionalRates net)
         \<or> (\<exists>m. filter (\<lambda>x. from_state x = to_state r \<and> to_state x = from_state r) (reactions net @ [r]) = [m]
            \<and> bidirectionalRates net' = bidirectionalRates net @ [BiDirReaction_init r m])"
  proof (elim disjE conjE exE)
    assume a: "filter (\<lambda>x. from_state x = to_state r \<and> to_state x = from_state r) (reactions net @ [r]) = []"
      and b: "net' = staged r net"
    have "bidirectionalRates net' = bidirectionalRates net" unfolding b by (simp only: staged_fields)
    with a show ?thesis by blast
  next
    fix m assume a: "filter (\<lambda>x. from_state x = to_state r \<and> to_state x = from_state r) (reactions net @ [r]) = [m]"
      and b: "net' = (staged r net)\<lparr>bidirectionalRates := bidirectionalRates net @ [BiDirReaction_init r m]\<rparr>"
    have "bidirectionalRates net' = bidirectionalRates net @ [BiDirReaction_init r m]" unfolding b by simp
    with a show ?thesis by blast
  qed
qed

lemma addReaction_succeeds:
  assumes "\<forall>x\<in>set (reactions net). name (rate x) \<noteq> name (rate r)"
    and "\<forall>bi\<in>set (bidirectionalRates net). \<not> contains_reaction bi (Some r)"
    and "length (filter (\<lambda>x. from_state x = to_state r \<and> to_state x = from_state r) (reactions net @ [r])) \<le> 1"
  shows "\<exists>net'. addReaction r net = (Inr (), net')"
proof -
  let ?ms = "filter (\<lambda>x. from_state x = to_state r \<and> to_state x = from_state r) (reactions (staged r net))"
  have "length ?ms \<le> 1" using assms(3) by (simp only: staged_fields)
  then have ms: "?ms = [] \<or> (\<exists>m. ?ms = [m])"
    by (rule short_list_cases)
  have noedge: "\<not> (\<exists>bi\<in>set (bidirectionalRates (staged r net)). contains_reaction bi (Some r))"
    using assms(2) by (simp only: staged_fields) blast
  have "\<exists>net'. add_bidirectionalRates r (staged r net) = (Inr (), net')"
    using ms
  proof (elim disjE exE)
    assume "?ms = []"
    then show ?thesis unfolding add_bidirectionalRates_eq using noedge by simp
  next
    fix m assume "?ms = [m]"
    then show ?thesis unfolding add_bidirectionalRates_eq using noedge by simp
  qed
  then show ?thesis
    using assms(1) unfolding addReaction_staged by simp
qed

subsection \<open>Invariants of a run of successful calls\<close>

lemma set_first_seen [simp]: "set (first_seen xs) = set xs"
  by (induction xs) auto

lemma distinct_first_seen [simp]: "distinct (first_seen xs)"
  by (induction xs) auto

lemma first_seen_append:
  "first_seen (xs @ ys) = first_seen xs @ filter (\<lambda>y. y \<notin> set xs) (first_seen ys)"
proof (induction xs)
  case Nil
  show ?case by simp
next
  case (Cons x xs)
  have "filter (\<lambda>y. y \<noteq> x) (filter (\<lambda>y. y \<notin> set xs) (first_seen ys))
          = filter (\<lambda>y. y \<notin> set (x # xs)) (first_seen ys)"
    by (simp add: conj_commute)
  with Cons show ?case by simp
qed

lemma states_mentioned_snoc:
  "states_mentioned (rs @ [r]) = states_mentioned rs @ [from_state r, to_state r]"
  by (simp add: states_mentioned_def)

lemma set_states_mentioned:
  "set (states_mentioned rs) = from_state ` set rs \<union> to_state ` set rs"
  by (induction rs) (auto simp: states_mentioned_def)

lemma addReactions_Nil_init: "addReactions [] n0 = (Inr (), net) \<Longrightarrow> net = n0"
  by simp

lemma replay_reactions:
  "addReactions rs Reactions_init = (Inr (), net) \<Longrightarrow> reactions net = rs"
proof (induction rs arbitrary: net rule: rev_induct)
  case Nil
  then show ?case by (auto simp: Reactions_init_def)
next
  case (snoc r rs)
  then obtain n where n: "addReactions rs Reactions_init = (Inr (), n)"
    and a: "addReaction r n = (Inr (), net)"
    unfolding addReactions_snoc_Inr by blast
  show ?case using snoc.IH [OF n] addReaction_InrD(1) [OF a] by simp
qed

lemma replay_states:
  "addReactions rs Reactions_init = (Inr (), net)
     \<Longrightarrow> enzymeStates net = first_seen (states_mentioned rs)"
proof (induction rs arbitrary: net rule: rev_induct)
  case Nil
  then show ?case by (auto simp: Reactions_init_def states_mentioned_def)
next
  case (snoc r rs)
  then obtain n where n: "addReactions rs Reactions_init = (Inr (), n)"
    and a: "addReaction r n = (Inr (), net)"
    unfolding addReactions_snoc_Inr by blast
  have "enzymeStates net = first_seen (states_mentioned rs)
          @ filter (\<lambda>y. y \<notin> set (states_mentioned rs)) (first_seen [from_state r, to_state r])"
    using snoc.IH [OF n] addReaction_InrD(2) [OF a] by simp
  then show ?case
    by (simp only: states_mentioned_snoc first_seen_append)
qed

lemma notin_image_neq: "k \<notin> f ` A \<Longrightarrow> x \<in> A \<Longrightarrow> f x \<noteq> k"
  by auto

lemma distinct_filter_le1:
  "distinct (map f xs) \<Longrightarrow> length (filter (\<lambda>x. f x = k) xs) \<le> 1"
proof (induction xs)
  case Nil
  show ?case by simp
next
  case (Cons x xs)
  show ?case
  proof (cases "f x = k")
    case True
    have "k \<notin> f ` set xs" using Cons.prems True by simp
    then have "filter (\<lambda>x. f x = k) xs = []"
      unfolding filter_empty_conv using notin_image_neq by fast
    then show ?thesis using True by simp
  next
    case False
    then show ?thesis using Cons by simp
  qed
qed

lemma replay_edge_legs:
  "addReactions rs Reactions_init = (Inr (), net) \<Longrightarrow> bi \<in> set (bidirectionalRates net)
     \<Longrightarrow> fwd_reaction bi \<in> set rs \<and> rev_reaction bi \<in> set rs
         \<and> from_state (rev_reaction bi) = to_state (fwd_reaction bi)
         \<and> to_state (rev_reaction bi) = from_state (fwd_reaction bi)"
proof (induction rs arbitrary: net rule: rev_induct)
  case Nil
  then show ?case by (auto simp: Reactions_init_def)
next
  case (snoc r rs)
  then obtain n where n: "addReactions rs Reactions_init = (Inr (), n)"
    and a: "addReaction r n = (Inr (), net)"
    unfolding addReactions_snoc_Inr by blast
  have rn: "reactions n = rs" by (rule replay_reactions [OF n])
  from addReaction_InrD(5) [OF a] show ?case
  proof (elim disjE conjE exE)
    assume "bidirectionalRates net = bidirectionalRates n"
    then have "bi \<in> set (bidirectionalRates n)" using snoc.prems(2) by simp
    from snoc.IH [OF n this] show ?thesis by simp
  next
    fix m
    assume f: "filter (\<lambda>x. from_state x = to_state r \<and> to_state x = from_state r) (reactions n @ [r]) = [m]"
      and e: "bidirectionalRates net = bidirectionalRates n @ [BiDirReaction_init r m]"
    have "m \<in> set (filter (\<lambda>x. from_state x = to_state r \<and> to_state x = from_state r) (reactions n @ [r]))"
      unfolding f by simp
    then have m: "m \<in> set (rs @ [r])" "from_state m = to_state r" "to_state m = from_state r"
      unfolding rn set_filter by blast+
    from snoc.prems(2) e have "bi \<in> set (bidirectionalRates n) \<or> bi = BiDirReaction_init r m"
      by auto
    then show ?thesis
    proof
      assume "bi \<in> set (bidirectionalRates n)"
      from snoc.IH [OF n this] show ?thesis by simp
    next
      assume "bi = BiDirReaction_init r m"
      then show ?thesis using m by (simp add: BiDirReaction_init_def)
    qed
  qed
qed

lemma replay_distinct_names:
  "addReactions rs Reactions_init = (Inr (), net) \<Longrightarrow> distinct (map (\<lambda>r. name (rate r)) rs)"
proof (induction rs arbitrary: net rule: rev_induct)
  case Nil
  show ?case by simp
next
  case (snoc r rs)
  then obtain n where n: "addReactions rs Reactions_init = (Inr (), n)"
    and a: "addReaction r n = (Inr (), net)"
    unfolding addReactions_snoc_Inr by blast
  have rn: "reactions n = rs" by (rule replay_reactions [OF n])
  show ?case using snoc.IH [OF n] addReaction_InrD(3) [OF a] unfolding rn by auto
qed

lemma contains_reaction_leg_name:
  "contains_reaction bi (Some r)
     \<Longrightarrow> name (rate (fwd_reaction bi)) = name (rate r) \<or> name (rate (rev_reaction bi)) = name (rate r)"
  by (auto simp: UnitReaction_eq_def ReactionRate_eq_def)

subsection \<open>Edges and the reactions they pair\<close>

lemma UnitReaction_eq_refl [simp]: "UnitReaction_eq x x"
  by (simp add: UnitReaction_eq_def ReactionRate_eq_def)

lemma UnitReaction_eq_endpoints:
  "UnitReaction_eq x y \<Longrightarrow> from_state x = from_state y \<and> to_state x = to_state y
      \<and> name (rate x) = name (rate y)"
  by (simp add: UnitReaction_eq_def ReactionRate_eq_def)

lemma edges_with_pos: "(0 < edges_with x net) = (\<exists>bi\<in>set (bidirectionalRates net). contains_reaction bi (Some x))"
  by (auto simp: edges_with_def filter_empty_conv)

lemma edges_with_zero: "(edges_with x net = 0) = (\<forall>bi\<in>set (bidirectionalRates net). \<not> contains_reaction bi (Some x))"
  by (auto simp: edges_with_def filter_empty_conv)

lemma edges_with_same:
  "bidirectionalRates net' = bidirectionalRates net \<Longrightarrow> edges_with x net' = edges_with x net"
  by (simp add: edges_with_def)

lemma edges_with_snoc:
  "bidirectionalRates net' = bidirectionalRates net @ [bi]
     \<Longrightarrow> edges_with x net' = edges_with x net + (if contains_reaction bi (Some x) then 1 else 0)"
  by (simp add: edges_with_def)

lemma contains_reaction_init:
  "contains_reaction (BiDirReaction_init r m) (Some x) = (UnitReaction_eq x r \<or> UnitReaction_eq x m)"
  by (simp add: BiDirReaction_init_def)

lemma replay_edge_gives_reverse:
  assumes run: "addReactions rs Reactions_init = (Inr (), net)"
    and bi: "bi \<in> set (bidirectionalRates net)" and c: "contains_reaction bi (Some x)"
  shows "\<exists>y\<in>set rs. from_state y = to_state x \<and> to_state y = from_state x"
proof -
  note legs = replay_edge_legs [OF run bi]
  from c have "UnitReaction_eq x (fwd_reaction bi) \<or> UnitReaction_eq x (rev_reaction bi)"
    by (cases bi) simp
  then show ?thesis
  proof
    assume "UnitReaction_eq x (fwd_reaction bi)"
    from UnitReaction_eq_endpoints [OF this] legs
    have "rev_reaction bi \<in> set rs \<and> from_state (rev_reaction bi) = to_state x
            \<and> to_state (rev_reaction bi) = from_state x" by simp
    then show ?thesis by blast
  next
    assume "UnitReaction_eq x (rev_reaction bi)"
    from UnitReaction_eq_endpoints [OF this] legs
    have "fwd_reaction bi \<in> set rs \<and> from_state (fwd_reaction bi) = to_state x
            \<and> to_state (fwd_reaction bi) = from_state x" by simp
    then show ?thesis by blast
  qed
qed

lemma replay_paired:
  "addReactions rs Reactions_init = (Inr (), net) \<Longrightarrow> x \<in> set rs \<Longrightarrow> y \<in> set rs
     \<Longrightarrow> from_state y = to_state x \<Longrightarrow> to_state y = from_state x
     \<Longrightarrow> \<exists>bi\<in>set (bidirectionalRates net). contains_reaction bi (Some x)"
proof (induction rs arbitrary: net rule: rev_induct)
  case Nil
  then show ?case by simp
next
  case (snoc r rs)
  then obtain n where n: "addReactions rs Reactions_init = (Inr (), n)"
    and a: "addReaction r n = (Inr (), net)"
    unfolding addReactions_snoc_Inr by blast
  have rn: "reactions n = rs" by (rule replay_reactions [OF n])
  let ?P = "\<lambda>z. from_state z = to_state r \<and> to_state z = from_state r"
  note step = addReaction_InrD(5) [OF a, unfolded rn]
  have sub: "set (bidirectionalRates n) \<subseteq> set (bidirectionalRates net)"
  proof -
    from step have "bidirectionalRates net = bidirectionalRates n
        \<or> (\<exists>m. bidirectionalRates net = bidirectionalRates n @ [BiDirReaction_init r m])" by blast
    then show ?thesis
    proof (elim disjE exE)
      assume "bidirectionalRates net = bidirectionalRates n" then show ?thesis by simp
    next
      fix m assume "bidirectionalRates net = bidirectionalRates n @ [BiDirReaction_init r m]"
      then show ?thesis by (simp add: subset_insertI)
    qed
  qed
  show ?case
  proof (cases "x \<in> set rs \<and> y \<in> set rs")
    case True
    with snoc.IH [OF n] snoc.prems(4,5) sub show ?thesis by blast
  next
    case False
    have mem: "\<And>z. z \<in> set (rs @ [r]) \<Longrightarrow> ?P z \<Longrightarrow> z \<in> set (filter ?P (rs @ [r]))"
      unfolding set_filter by blast
    have cand: "\<exists>z. z \<in> set (filter ?P (rs @ [r])) \<and> (x \<noteq> r \<longrightarrow> z = x)"
    proof (cases "x = r")
      case True
      have "?P y" using snoc.prems(4,5) True by simp
      from mem [OF snoc.prems(3) this] True show ?thesis by blast
    next
      case xr: False
      then have "x \<in> set rs" using snoc.prems(2) by simp
      with False have "y \<notin> set rs" by blast
      then have "y = r" using snoc.prems(3) by simp
      then have "?P x" using snoc.prems(4,5) by simp
      from mem [OF snoc.prems(2) this] show ?thesis by blast
    qed
    then obtain z where z: "z \<in> set (filter ?P (rs @ [r]))" "x \<noteq> r \<longrightarrow> z = x" by blast
    then have ne: "filter ?P (rs @ [r]) \<noteq> []" by (metis empty_iff empty_set)
    with step obtain m where f: "filter ?P (rs @ [r]) = [m]"
      and e: "bidirectionalRates net = bidirectionalRates n @ [BiDirReaction_init r m]"
      by blast
    have "contains_reaction (BiDirReaction_init r m) (Some x)"
    proof (cases "x = r")
      case True
      then show ?thesis unfolding contains_reaction_init by simp
    next
      case False
      then have "z = x" using z(2) by blast
      then have "x \<in> set [m]" using z(1) unfolding f by simp
      then have "m = x" by simp
      then show ?thesis unfolding contains_reaction_init by simp
    qed
    moreover have "BiDirReaction_init r m \<in> set (bidirectionalRates net)"
      unfolding e by simp
    ultimately show ?thesis by blast
  qed
qed

lemma replay_at_most_one:
  "addReactions rs Reactions_init = (Inr (), net)
     \<Longrightarrow> distinct (map (\<lambda>r. (from_state r, to_state r)) rs)
     \<Longrightarrow> x \<in> set rs \<Longrightarrow> edges_with x net \<le> 1"
proof (induction rs arbitrary: net rule: rev_induct)
  case Nil
  then show ?case by simp
next
  case (snoc r rs)
  then obtain n where n: "addReactions rs Reactions_init = (Inr (), n)"
    and a: "addReaction r n = (Inr (), net)"
    unfolding addReactions_snoc_Inr by blast
  have rn: "reactions n = rs" by (rule replay_reactions [OF n])
  have I2: "distinct (map (\<lambda>r. (from_state r, to_state r)) rs)"
    and new_pair: "(from_state r, to_state r) \<notin> (\<lambda>r. (from_state r, to_state r)) ` set rs"
    using snoc.prems(2) by simp_all
  have no_same_pair: "\<And>z. z \<in> set rs \<Longrightarrow> \<not> (from_state z = from_state r \<and> to_state z = to_state r)"
  proof
    fix z assume "z \<in> set rs" and "from_state z = from_state r \<and> to_state z = to_state r"
    from notin_image_neq [OF new_pair this(1)] this(2) show False by simp
  qed
  let ?P = "\<lambda>z. from_state z = to_state r \<and> to_state z = from_state r"
  note step = addReaction_InrD(5) [OF a, unfolded rn]
  note fresh = addReaction_InrD(3) [OF a, unfolded rn]
  note noedge = addReaction_InrD(4) [OF a]
  have r0: "edges_with r n = 0"
    unfolding edges_with_zero by (rule noedge)
  have old: "x \<noteq> r \<Longrightarrow> edges_with x n \<le> 1"
  proof -
    assume "x \<noteq> r"
    then have "x \<in> set rs" using snoc.prems(3) by simp
    then show ?thesis by (rule snoc.IH [OF n I2])
  qed
  from step show ?case
  proof (elim disjE conjE exE)
    assume "bidirectionalRates net = bidirectionalRates n"
    from edges_with_same [OF this] r0 old show ?thesis by (cases "x = r") simp_all
  next
    fix m
    assume f: "filter ?P (rs @ [r]) = [m]"
      and e: "bidirectionalRates net = bidirectionalRates n @ [BiDirReaction_init r m]"
    note cnt = edges_with_snoc [OF e, of x]
    show ?thesis
    proof (cases "x = r")
      case True
      then show ?thesis using cnt r0 by simp
    next
      case False
      then have xin: "x \<in> set rs" using snoc.prems(3) by simp
      show ?thesis
      proof (cases "contains_reaction (BiDirReaction_init r m) (Some x)")
        case False
        then show ?thesis using cnt old [OF \<open>x \<noteq> r\<close>] by simp
      next
        case True
        have "\<not> UnitReaction_eq x r"
          using fresh xin UnitReaction_eq_endpoints by blast
        with True [unfolded contains_reaction_init] have xm: "UnitReaction_eq x m" by blast
        have "m \<in> set (filter ?P (rs @ [r]))" unfolding f by simp
        then have "?P m" unfolding set_filter by blast
        with UnitReaction_eq_endpoints [OF xm]
        have px: "from_state x = to_state r" "to_state x = from_state r" by simp_all
        have "edges_with x n = 0"
          unfolding edges_with_zero
        proof (intro ballI notI)
          fix bi assume bi: "bi \<in> set (bidirectionalRates n)" and c: "contains_reaction bi (Some x)"
          from replay_edge_gives_reverse [OF n bi c] obtain y where
            "y \<in> set rs" "from_state y = to_state x" "to_state y = from_state x" by blast
          with px no_same_pair show False by simp
        qed
        then show ?thesis using cnt by simp
      qed
    qed
  qed
qed

lemma replay_no_edge_for_fresh:
  assumes run: "addReactions rs Reactions_init = (Inr (), net)"
    and fresh: "\<forall>x\<in>set rs. name (rate x) \<noteq> name (rate r)"
  shows "\<forall>bi\<in>set (bidirectionalRates net). \<not> contains_reaction bi (Some r)"
proof (intro ballI notI)
  fix bi assume bi: "bi \<in> set (bidirectionalRates net)" and c: "contains_reaction bi (Some r)"
  from replay_edge_legs [OF run bi] contains_reaction_leg_name [OF c] fresh
  show False by blast
qed

lemma add_parallel:
  "addReactions [R1, R2, R2_parallel] Reactions_init =
     (Inr (), \<lparr>reactions = [R1, R2, R2_parallel], enzymeStates = [st_E, st_EA],
               bidirectionalRates = [BiDirReaction_init R2 R1, BiDirReaction_init R2_parallel R1]\<rparr>)"
  by (simp add: net_defs example_defs)

lemma net_parallel_eq:
  "net_parallel = \<lparr>reactions = [R1, R2, R2_parallel], enzymeStates = [st_E, st_EA],
               bidirectionalRates = [BiDirReaction_init R2 R1, BiDirReaction_init R2_parallel R1]\<rparr>"
  unfolding net_parallel_def add_parallel by simp

lemma net_loop_eq:
  "net_loop = \<lparr>reactions = [R_loop], enzymeStates = [st_E],
               bidirectionalRates = [BiDirReaction_init R_loop R_loop]\<rparr>"
  by (simp add: net_loop_def net_defs example_defs Let_def)

subsection \<open>The loops that fill a matrix\<close>

lemma filter_length_cases2:
  "(if length xs = 0 then a else if length xs > 1 then c else f (xs ! 0))
     = (case xs of [] \<Rightarrow> a | [m] \<Rightarrow> f m | _ \<Rightarrow> c)"
  by (cases xs; simp split: list.splits)

lemma reaction_from_Reactants_eq:
  "reaction_from_Reactants fs ts net =
     (case filter (\<lambda>x. from_state x = fs \<and> to_state x = ts) (reactions net) of
        [] \<Rightarrow> Inr None
      | [m] \<Rightarrow> Inr (Some m)
      | _ \<Rightarrow> Inl MultipleMatchingReactions)"
proof -
  have e: "filter (\<lambda>reaction. Enzymestate_eq (from_state reaction) fs
                                   \<and> Enzymestate_eq (to_state reaction) ts) (reactions net)
      = filter (\<lambda>x. from_state x = fs \<and> to_state x = ts) (reactions net)"
    by simp
  show ?thesis
    unfolding reaction_from_Reactants_def Let_def e
    by (rule filter_length_cases2)
qed

lemma for_each_Inr_fold:
  "(\<And>x s. x \<in> set xs \<Longrightarrow> body x s = Inr (f x s)) \<Longrightarrow> for_each xs body s = Inr (fold f xs s)"
  by (induction xs arbitrary: s) simp_all

lemma for_each_Inl:
  "for_each xs body s = Inl e \<Longrightarrow> \<exists>x\<in>set xs. \<exists>s'. body x s' = Inl e"
proof (induction xs arbitrary: s)
  case Nil
  then show ?case by simp
next
  case (Cons x xs)
  show ?case
  proof (cases "body x s")
    case (Inl e')
    with Cons.prems have "body x s = Inl e" by simp
    then show ?thesis by auto
  next
    case (Inr s')
    with Cons.prems have "for_each xs body s' = Inl e" by simp
    from Cons.IH [OF this] show ?thesis by auto
  qed
qed

lemma for_each_Inr_all:
  "for_each xs body s = Inr t \<Longrightarrow> \<forall>x\<in>set xs. \<exists>s1 s2. body x s1 = Inr s2"
proof (induction xs arbitrary: s)
  case Nil
  then show ?case by simp
next
  case (Cons x xs)
  show ?case
  proof (cases "body x s")
    case (Inl e')
    with Cons.prems show ?thesis by simp
  next
    case (Inr s')
    with Cons.prems have "for_each xs body s' = Inr t" by simp
    from Cons.IH [OF this] Inr show ?thesis by auto
  qed
qed

lemma enumerate_snd_in:
  assumes "jx \<in> set (enumerate k xs)"
  shows "snd jx \<in> set xs"
proof -
  from assms have 1: "k \<le> fst jx" "fst jx < length xs + k" "xs ! (fst jx - k) = snd jx"
    by (simp_all add: in_set_enumerate_eq)
  then have "fst jx - k < length xs" by linarith
  then have "xs ! (fst jx - k) \<in> set xs" by (rule nth_mem)
  then show ?thesis using 1(3) by simp
qed

lemma in_enumerate_index:
  assumes "i < length xs"
  shows "(i, xs ! i) \<in> set (enumerate 0 xs)"
  using assms by (simp add: in_set_enumerate_eq)

lemma row_fill:
  "k + length xs \<le> length row \<Longrightarrow>
     fold (\<lambda>(j, x) row. row[j := c x]) (enumerate k xs) row
       = take k row @ map c xs @ drop (k + length xs) row"
proof (induction xs arbitrary: k row)
  case Nil
  show ?case by simp
next
  case (Cons x xs)
  have k: "k < length row" using Cons.prems by simp
  have "fold (\<lambda>(j, x) row. row[j := c x]) (enumerate k (x # xs)) row
          = fold (\<lambda>(j, x) row. row[j := c x]) (enumerate (Suc k) xs) (row[k := c x])"
    by simp
  also have "\<dots> = take (Suc k) (row[k := c x]) @ map c xs
                    @ drop (Suc k + length xs) (row[k := c x])"
    using Cons.prems by (intro Cons.IH) simp
  also have "take (Suc k) (row[k := c x]) = take k row @ [c x]"
    using k by (simp add: take_Suc_conv_app_nth)
  also have "drop (Suc k + length xs) (row[k := c x]) = drop (Suc k + length xs) row"
    by simp
  finally show ?case by simp
qed

lemma cells_fill:
  "i < length res \<Longrightarrow>
     fold (\<lambda>(j, x) res. set_cell i j (c x) res) js res
       = res[i := fold (\<lambda>(j, x) row. row[j := c x]) js (res ! i)]"
proof (induction js arbitrary: res)
  case Nil
  show ?case by simp
next
  case (Cons jx js)
  obtain j x where jx: "jx = (j, x)" by (cases jx)
  have "fold (\<lambda>(j, x) res. set_cell i j (c x) res) (jx # js) res
          = fold (\<lambda>(j, x) res. set_cell i j (c x) res) js (res[i := (res ! i)[j := c x]])"
    by (simp add: jx set_cell_def)
  also have "\<dots> = (res[i := (res ! i)[j := c x]])
                      [i := fold (\<lambda>(j, x) row. row[j := c x]) js ((res[i := (res ! i)[j := c x]]) ! i)]"
    using Cons.prems by (intro Cons.IH) simp
  also have "\<dots> = res[i := fold (\<lambda>(j, x) row. row[j := c x]) (jx # js) (res ! i)]"
    using Cons.prems by (simp add: jx)
  finally show ?case .
qed

lemma inner_loop:
  assumes ok: "\<And>x. x \<in> set xs \<Longrightarrow> look x = Inr (g x)"
    and i: "i < length res" and len: "length (res ! i) = length xs"
  shows "for_each (enumerate 0 xs)
           (\<lambda>(j, x) res. case look x of Inl e \<Rightarrow> Inl e | Inr v \<Rightarrow> Inr (set_cell i j (h v) res)) res
         = Inr (res[i := map (\<lambda>x. h (g x)) xs])"
proof -
  have "for_each (enumerate 0 xs)
           (\<lambda>(j, x) res. case look x of Inl e \<Rightarrow> Inl e | Inr v \<Rightarrow> Inr (set_cell i j (h v) res)) res
        = Inr (fold (\<lambda>(j, x) res. set_cell i j (h (g x)) res) (enumerate 0 xs) res)"
  proof (rule for_each_Inr_fold)
    fix jx s assume "jx \<in> set (enumerate 0 xs)"
    then have "snd jx \<in> set xs" by (rule enumerate_snd_in)
    then obtain j x where jx: "jx = (j, x)" and "x \<in> set xs"
      by (cases jx) simp
    then show "(case jx of (j, x) \<Rightarrow> \<lambda>res. case look x of Inl e \<Rightarrow> Inl e
                   | Inr v \<Rightarrow> Inr (set_cell i j (h v) res)) s
               = Inr ((case jx of (j, x) \<Rightarrow> \<lambda>res. set_cell i j (h (g x)) res) s)"
      by (simp add: ok)
  qed
  also have "fold (\<lambda>(j, x) res. set_cell i j (h (g x)) res) (enumerate 0 xs) res
             = res[i := fold (\<lambda>(j, x) row. row[j := h (g x)]) (enumerate 0 xs) (res ! i)]"
    by (rule cells_fill [OF i])
  also have "fold (\<lambda>(j, x) row. row[j := h (g x)]) (enumerate 0 xs) (res ! i)
             = map (\<lambda>x. h (g x)) xs"
    using row_fill [of 0 xs "res ! i" "\<lambda>x. h (g x)"] len by simp
  finally show ?thesis .
qed

lemma outer_loop:
  assumes body: "\<And>i x res. i < length res \<Longrightarrow> length (res ! i) = n \<Longrightarrow> x \<in> set xs
                   \<Longrightarrow> body (i, x) res = Inr (res[i := F x])"
    and "k + length xs \<le> length res"
    and "\<forall>i<length res. k \<le> i \<longrightarrow> length (res ! i) = n"
  shows "for_each (enumerate k xs) body res
           = Inr (take k res @ map F xs @ drop (k + length xs) res)"
  using assms
proof (induction xs arbitrary: k res)
  case Nil
  show ?case by simp
next
  case (Cons x xs)
  have k: "k < length res" using Cons.prems(2) by simp
  then have lk: "length (res ! k) = n" using Cons.prems(3) by simp
  have step: "body (k, x) res = Inr (res[k := F x])"
    by (rule Cons.prems(1) [OF k lk]) simp
  have IH: "for_each (enumerate (Suc k) xs) body (res[k := F x])
           = Inr (take (Suc k) (res[k := F x]) @ map F xs @ drop (Suc k + length xs) (res[k := F x]))"
  proof (rule Cons.IH)
    show "\<And>i x' res'. i < length res' \<Longrightarrow> length (res' ! i) = n \<Longrightarrow> x' \<in> set xs
              \<Longrightarrow> body (i, x') res' = Inr (res'[i := F x'])"
      using Cons.prems(1) by simp
    show "Suc k + length xs \<le> length (res[k := F x])" using Cons.prems(2) by simp
    show "\<forall>i<length (res[k := F x]). Suc k \<le> i \<longrightarrow> length (res[k := F x] ! i) = n"
      using Cons.prems(3) by simp
  qed
  have t: "take (Suc k) (res[k := F x]) = take k res @ [F x]"
    using k by (simp add: take_Suc_conv_app_nth)
  have d: "drop (Suc k + length xs) (res[k := F x]) = drop (Suc k + length xs) res"
    by simp
  show ?case
    using step IH unfolding t d by simp
qed

lemma lookup_ok:
  assumes "length (filter (\<lambda>x. from_state x = a \<and> to_state x = b) (reactions net)) \<le> 1"
  shows "reaction_from_Reactants a b net
           = Inr (case filter (\<lambda>x. from_state x = a \<and> to_state x = b) (reactions net) of
                    [] \<Rightarrow> None | m # _ \<Rightarrow> Some m)"
proof -
  from short_list_cases [OF assms] show ?thesis
  proof (elim disjE exE)
    assume "filter (\<lambda>x. from_state x = a \<and> to_state x = b) (reactions net) = []"
    then show ?thesis unfolding reaction_from_Reactants_eq by simp
  next
    fix m assume "filter (\<lambda>x. from_state x = a \<and> to_state x = b) (reactions net) = [m]"
    then show ?thesis unfolding reaction_from_Reactants_eq by simp
  qed
qed

lemma lookup_Inl:
  "reaction_from_Reactants a b net = Inl e \<Longrightarrow> e = MultipleMatchingReactions"
  unfolding reaction_from_Reactants_eq by (simp split: list.splits)

lemma lookup_Inr:
  assumes "reaction_from_Reactants a b net = Inr v"
  shows "length (filter (\<lambda>x. from_state x = a \<and> to_state x = b) (reactions net)) \<le> 1"
  using assms unfolding reaction_from_Reactants_eq by (simp split: list.splits)

lemma kinetic_matrix_ok:
  assumes u: "unique_endpoints net"
  shows "kinetic_matrix net
           = Inr (map (\<lambda>a. map (\<lambda>b. kcell net a b) (enzymeStates net)) (enzymeStates net))"
proof -
  let ?es = "enzymeStates net"
  let ?res0 = "map (\<lambda>_. map (\<lambda>_. None) ?es) ?es :: ReactionRate option list list"
  let ?g = "\<lambda>a b. case filter (\<lambda>x. from_state x = a \<and> to_state x = b) (reactions net) of
                    [] \<Rightarrow> None | m # _ \<Rightarrow> Some m"
  let ?h = "\<lambda>reac. case reac of Some r \<Rightarrow> Some (rate r) | None \<Rightarrow> None"
  let ?inner = "\<lambda>n_es1 es1. (\<lambda>(n_es2, es2) res.
             (case reaction_from_Reactants es1 es2 net of
                Inl e \<Rightarrow> Inl e
              | Inr reac \<Rightarrow> Inr (set_cell n_es1 n_es2 (?h reac) res)))"
  let ?body = "\<lambda>(n_es1, es1) res. for_each (enumerate 0 ?es) (?inner n_es1 es1) res"
  have hg: "\<And>a b. ?h (?g a b) = kcell net a b"
    unfolding kcell_def by (simp split: list.splits)
  have body: "\<And>i a res. i < length res \<Longrightarrow> length (res ! i) = length ?es \<Longrightarrow> a \<in> set ?es
                 \<Longrightarrow> ?body (i, a) res = Inr (res[i := map (\<lambda>b. kcell net a b) ?es])"
  proof -
    fix i a and res :: "ReactionRate option list list"
    assume i: "i < length res" and len: "length (res ! i) = length ?es" and a: "a \<in> set ?es"
    have ok: "\<And>b. b \<in> set ?es \<Longrightarrow> reaction_from_Reactants a b net = Inr (?g a b)"
      using u a unfolding unique_endpoints_def by (intro lookup_ok) blast
    have "for_each (enumerate 0 ?es) (?inner i a) res = Inr (res[i := map (\<lambda>b. ?h (?g a b)) ?es])"
      by (rule inner_loop [where look = "\<lambda>b. reaction_from_Reactants a b net" and g = "?g a" and h = ?h,
            OF ok i len])
    then show "?body (i, a) res = Inr (res[i := map (\<lambda>b. kcell net a b) ?es])"
      unfolding hg by simp
  qed
  have "for_each (enumerate 0 ?es) ?body ?res0
          = Inr (take 0 ?res0 @ map (\<lambda>a. map (\<lambda>b. kcell net a b) ?es) ?es
                 @ drop (0 + length ?es) ?res0)"
    by (rule outer_loop [where n = "length ?es", OF body]) simp_all
  then show ?thesis
    unfolding kinetic_matrix_def Let_def by simp
qed

lemma kinetic_matrix_Inl:
  assumes "kinetic_matrix net = Inl e"
  shows "e = MultipleMatchingReactions"
proof -
  from assms [unfolded kinetic_matrix_def Let_def]
  obtain ia r1 where "(case ia of (n_es1, es1) \<Rightarrow> \<lambda>res.
           for_each (enumerate 0 (enzymeStates net)) (\<lambda>(n_es2, es2) res.
             (case reaction_from_Reactants es1 es2 net of
                Inl e \<Rightarrow> Inl e
              | Inr reac \<Rightarrow>
                  Inr (set_cell n_es1 n_es2
                         (case reac of Some r \<Rightarrow> Some (rate r) | None \<Rightarrow> None) res))) res) r1 = Inl e"
    by (blast dest: for_each_Inl)
  then obtain i a where "for_each (enumerate 0 (enzymeStates net)) (\<lambda>(n_es2, es2) res.
             (case reaction_from_Reactants a es2 net of
                Inl e \<Rightarrow> Inl e
              | Inr reac \<Rightarrow>
                  Inr (set_cell i n_es2
                         (case reac of Some r \<Rightarrow> Some (rate r) | None \<Rightarrow> None) res))) r1 = Inl e"
    by (cases ia) simp
  then obtain jb r2 where "(case jb of (n_es2, es2) \<Rightarrow> \<lambda>res.
             (case reaction_from_Reactants a es2 net of
                Inl e \<Rightarrow> Inl e
              | Inr reac \<Rightarrow>
                  Inr (set_cell i n_es2
                         (case reac of Some r \<Rightarrow> Some (rate r) | None \<Rightarrow> None) res))) r2 = Inl e"
    by (blast dest: for_each_Inl)
  then obtain b where "reaction_from_Reactants a b net = Inl e"
    by (cases jb) (simp split: sum.splits)
  then show ?thesis by (rule lookup_Inl)
qed

lemma kinetic_matrix_Inr:
  assumes "kinetic_matrix net = Inr m"
  shows "unique_endpoints net"
  unfolding unique_endpoints_def
proof (intro ballI)
  fix a b assume a: "a \<in> set (enzymeStates net)" and b: "b \<in> set (enzymeStates net)"
  from a obtain i where i: "i < length (enzymeStates net)" "enzymeStates net ! i = a"
    unfolding in_set_conv_nth by blast
  from b obtain j where j: "j < length (enzymeStates net)" "enzymeStates net ! j = b"
    unfolding in_set_conv_nth by blast
  have ia: "(i, a) \<in> set (enumerate 0 (enzymeStates net))"
    using in_enumerate_index [OF i(1)] i(2) by simp
  have jb: "(j, b) \<in> set (enumerate 0 (enzymeStates net))"
    using in_enumerate_index [OF j(1)] j(2) by simp
  from for_each_Inr_all [OF assms [unfolded kinetic_matrix_def Let_def]] ia
  obtain s1 s2 where "for_each (enumerate 0 (enzymeStates net)) (\<lambda>(n_es2, es2) res.
             (case reaction_from_Reactants a es2 net of
                Inl e \<Rightarrow> Inl e
              | Inr reac \<Rightarrow>
                  Inr (set_cell i n_es2
                         (case reac of Some r \<Rightarrow> Some (rate r) | None \<Rightarrow> None) res))) s1 = Inr s2"
    by fastforce
  from for_each_Inr_all [OF this] jb
  obtain t1 t2 where "(case reaction_from_Reactants a b net of
                Inl e \<Rightarrow> Inl e
              | Inr reac \<Rightarrow>
                  Inr (set_cell i j
                         (case reac of Some r \<Rightarrow> Some (rate r) | None \<Rightarrow> None) t1)) = Inr t2"
    by fastforce
  then obtain v where "reaction_from_Reactants a b net = Inr v"
    by (cases "reaction_from_Reactants a b net") simp_all
  then show "length (filter (\<lambda>x. from_state x = a \<and> to_state x = b) (reactions net)) \<le> 1"
    by (rule lookup_Inr)
qed

lemma kinetic_matrix_eq:
  "kinetic_matrix net =
     (if unique_endpoints net
      then Inr (map (\<lambda>a. map (\<lambda>b. kcell net a b) (enzymeStates net)) (enzymeStates net))
      else Inl MultipleMatchingReactions)"
proof (cases "unique_endpoints net")
  case True
  then show ?thesis by (simp add: kinetic_matrix_ok)
next
  case False
  show ?thesis
  proof (cases "kinetic_matrix net")
    case (Inl e)
    with kinetic_matrix_Inl [OF Inl] False show ?thesis by simp
  next
    case (Inr m)
    from kinetic_matrix_Inr [OF Inr] False show ?thesis by simp
  qed
qed

subsection \<open>Value types\<close>

text \<open>
  Claim C9 as stated fails: it says that hashing of a rate depends on the name only, and
  that equality by name holds for all name and reactant strings. A rate has no hash: the
  class defines \<^verbatim>\<open>__eq__\<close> and no \<^verbatim>\<open>__hash__\<close>, so \<^verbatim>\<open>hash(ReactionRate("k1","A"))\<close> raises
  \<^verbatim>\<open>TypeError\<close>.
\<close>

theorem ReactionRate_hash_counterexample:
  "ReactionRate_hash \<lparr>name = Symbol ''k1'', reactant = Some (Symbol ''A'')\<rparr> = Inl TypeError"
  by (simp add: ReactionRate_hash_def)

text \<open>
  Claim C9, amended. Equality of two rates is equality of their name identifiers, the
  reactant plays no part in it; two rates built from the same name string are equal
  whatever reactant strings they are given, and two rates built from the name strings
  \<open>n\<close> and \<open>m\<close> are equal exactly when \<^verbatim>\<open>symbols\<close> returns the same identifier for \<open>n\<close> and
  \<open>m\<close> (the strings themselves may differ). This holds of the constructions that return:
  the constructor raises what \<^verbatim>\<open>symbols\<close> raises. Where \<^verbatim>\<open>symbols\<close> maps \<^verbatim>\<open>"k1"\<close>, \<^verbatim>\<open>"A"\<close> and
  \<^verbatim>\<open>"B"\<close> to the symbols of these names, \<^verbatim>\<open>ReactionRate("k1","A")\<close> and
  \<^verbatim>\<open>ReactionRate("k1","B")\<close> are equal and print as \<^verbatim>\<open>k1[A]\<close> and \<^verbatim>\<open>k1[B]\<close>. No rate can be
  hashed.
\<close>

theorem ReactionRate_identity_by_name:
  "ReactionRate_eq a b = (name a = name b)
   \<and> ReactionRate_eq (a\<lparr>reactant := p\<rparr>) (b\<lparr>reactant := q\<rparr>) = ReactionRate_eq a b
   \<and> (ReactionRate_init symbols n ps = Inr x \<and> ReactionRate_init symbols n qs = Inr y
        \<longrightarrow> ReactionRate_eq x y)
   \<and> (ReactionRate_init symbols n ps = Inr x \<and> ReactionRate_init symbols m qs = Inr y
        \<longrightarrow> ReactionRate_eq x y = (symbols n = symbols m))
   \<and> (symbols ''k1'' = Inr (Symbol ''k1'') \<and> symbols ''A'' = Inr (Symbol ''A'')
        \<and> symbols ''B'' = Inr (Symbol ''B'')
        \<longrightarrow> ReactionRate_init symbols ''k1'' (Some ''A'')
              = Inr \<lparr>name = Symbol ''k1'', reactant = Some (Symbol ''A'')\<rparr>
          \<and> ReactionRate_init symbols ''k1'' (Some ''B'')
              = Inr \<lparr>name = Symbol ''k1'', reactant = Some (Symbol ''B'')\<rparr>
          \<and> ReactionRate_eq \<lparr>name = Symbol ''k1'', reactant = Some (Symbol ''A'')\<rparr>
               \<lparr>name = Symbol ''k1'', reactant = Some (Symbol ''B'')\<rparr>
          \<and> ReactionRate_str \<lparr>name = Symbol ''k1'', reactant = Some (Symbol ''A'')\<rparr> = ''k1[A]''
          \<and> ReactionRate_str \<lparr>name = Symbol ''k1'', reactant = Some (Symbol ''B'')\<rparr> = ''k1[B]'')
   \<and> ReactionRate_hash a = Inl TypeError"
proof -
  have init_name: "name z = s"
    if "ReactionRate_init symbols k ks = Inr z" "symbols k = Inr s" for k ks z s
    using that
    by (auto simp: ReactionRate_init_def split: option.splits if_splits sum.splits)
  have init_Inr: "\<exists>s. symbols k = Inr s"
    if "ReactionRate_init symbols k ks = Inr z" for k ks z
    using that by (cases "symbols k") (simp_all add: ReactionRate_init_def)
  have c1: "ReactionRate_eq a b = (name a = name b)"
    by (simp add: ReactionRate_eq_def)
  have c2: "ReactionRate_eq (a\<lparr>reactant := p\<rparr>) (b\<lparr>reactant := q\<rparr>) = ReactionRate_eq a b"
    by (simp add: ReactionRate_eq_def)
  have c3: "ReactionRate_eq x y"
    if h: "ReactionRate_init symbols n ps = Inr x \<and> ReactionRate_init symbols n qs = Inr y"
  proof -
    from h init_Inr obtain s where s: "symbols n = Inr s" by blast
    from h s have "name x = s" "name y = s" by (blast intro: init_name)+
    then show ?thesis by (simp add: ReactionRate_eq_def)
  qed
  have c4: "ReactionRate_eq x y = (symbols n = symbols m)"
    if h: "ReactionRate_init symbols n ps = Inr x \<and> ReactionRate_init symbols m qs = Inr y"
  proof -
    from h init_Inr obtain s where s: "symbols n = Inr s" by blast
    from h init_Inr obtain t where t: "symbols m = Inr t" by blast
    from h s t have "name x = s" "name y = t" by (blast intro: init_name)+
    then show ?thesis by (simp add: ReactionRate_eq_def s t)
  qed
  have c5: "ReactionRate_init symbols ''k1'' (Some ''A'')
              = Inr \<lparr>name = Symbol ''k1'', reactant = Some (Symbol ''A'')\<rparr>
          \<and> ReactionRate_init symbols ''k1'' (Some ''B'')
              = Inr \<lparr>name = Symbol ''k1'', reactant = Some (Symbol ''B'')\<rparr>
          \<and> ReactionRate_eq \<lparr>name = Symbol ''k1'', reactant = Some (Symbol ''A'')\<rparr>
               \<lparr>name = Symbol ''k1'', reactant = Some (Symbol ''B'')\<rparr>
          \<and> ReactionRate_str \<lparr>name = Symbol ''k1'', reactant = Some (Symbol ''A'')\<rparr> = ''k1[A]''
          \<and> ReactionRate_str \<lparr>name = Symbol ''k1'', reactant = Some (Symbol ''B'')\<rparr> = ''k1[B]''"
    if "symbols ''k1'' = Inr (Symbol ''k1'') \<and> symbols ''A'' = Inr (Symbol ''A'')
        \<and> symbols ''B'' = Inr (Symbol ''B'')"
    using that by (simp add: ReactionRate_init_def ReactionRate_eq_def ReactionRate_str_def)
  have c6: "ReactionRate_hash a = Inl TypeError"
    by (simp add: ReactionRate_hash_def)
  from c1 c2 c3 c4 c5 c6 show ?thesis by blast
qed

theorem ReactionRate_identity_by_name_witness:
  "ReactionRate_init (\<lambda>s. if s = [] then Inl ValueError else Inr (Symbol s)) ''k1'' (Some ''A'')
     = Inr \<lparr>name = Symbol ''k1'', reactant = Some (Symbol ''A'')\<rparr>
   \<and> ReactionRate_init (\<lambda>s. if s = [] then Inl ValueError else Inr (Symbol s)) ''k1'' (Some ''B'')
     = Inr \<lparr>name = Symbol ''k1'', reactant = Some (Symbol ''B'')\<rparr>
   \<and> ReactionRate_eq \<lparr>name = Symbol ''k1'', reactant = Some (Symbol ''A'')\<rparr>
        \<lparr>name = Symbol ''k1'', reactant = Some (Symbol ''B'')\<rparr>
   \<and> ReactionRate_str \<lparr>name = Symbol ''k1'', reactant = Some (Symbol ''A'')\<rparr> = ''k1[A]''
   \<and> ReactionRate_str \<lparr>name = Symbol ''k1'', reactant = Some (Symbol ''B'')\<rparr> = ''k1[B]''
   \<and> ReactionRate_hash \<lparr>name = Symbol ''k1'', reactant = Some (Symbol ''B'')\<rparr> = Inl TypeError"
proof -
  let ?symbols = "\<lambda>s. if s = [] then Inl ValueError else Inr (Symbol s)"
  let ?x = "\<lparr>name = Symbol ''k1'', reactant = Some (Symbol ''A'')\<rparr>"
  let ?y = "\<lparr>name = Symbol ''k1'', reactant = Some (Symbol ''B'')\<rparr>"
  have h: "?symbols ''k1'' = Inr (Symbol ''k1'') \<and> ?symbols ''A'' = Inr (Symbol ''A'')
        \<and> ?symbols ''B'' = Inr (Symbol ''B'')"
    by simp
  have i: "ReactionRate_init ?symbols ''k1'' (Some ''A'') = Inr ?x
        \<and> ReactionRate_init ?symbols ''k1'' (Some ''B'') = Inr ?y"
    by (simp add: ReactionRate_init_def)
  note t = ReactionRate_identity_by_name [where symbols = ?symbols and n = "''k1''"
      and m = "''k1''" and ps = "Some ''A''" and qs = "Some ''B''" and x = ?x and y = ?y
      and a = ?y and b = ?x and p = None and q = None]
  from t h i show ?thesis by blast
qed

subsection \<open>Reverse lookup\<close>

text \<open>
  Claim C6. For a reaction from A to B, \<^verbatim>\<open>reverse_Reaction\<close> looks at exactly the
  registered reactions from B to A: with no such reaction it returns \<^verbatim>\<open>None\<close>, with
  exactly one it returns that reaction, and with more than one it raises the
  "more than 1 reverse Reaction defined" error.
\<close>

theorem reverse_Reaction_cases:
  "reverse_Reaction reaction net =
     (case filter (\<lambda>x. from_state x = to_state reaction \<and> to_state x = from_state reaction)
                  (reactions net) of
        [] \<Rightarrow> Inr None
      | [m] \<Rightarrow> Inr (Some m)
      | _ \<Rightarrow> Inl MultipleReverseReactions)"
proof -
  have candidates:
    "filter (\<lambda>react. Enzymestate_eq (to_state react) (from_state reaction))
            (consumed_by (to_state reaction) net)
       = filter (\<lambda>x. from_state x = to_state reaction \<and> to_state x = from_state reaction)
                (reactions net)"
    by (simp add: consumed_by_def conj_commute)
  show ?thesis
    unfolding reverse_Reaction_def Let_def candidates
    by (rule filter_length_cases)
qed

subsection \<open>Rejection of a duplicate rate\<close>

text \<open>
  Claim C5. When the rate name of the reaction passed to \<^verbatim>\<open>addReaction\<close> is the rate name
  of a reaction already registered, the call raises the "rate constant already defined"
  error and leaves the network (reactions, states and bidirectional edges) exactly as it
  was before the call.
\<close>

theorem addReaction_duplicate_rate:
  assumes "x \<in> set (reactions net)" and "name (rate x) = name (rate reaction)"
  shows "addReaction reaction net = (Inl DuplicateRate, net)"
proof -
  have "filter (\<lambda>reac. ReactionRate_eq (rate reac) (rate reaction)) (reactions net) \<noteq> []"
    using assms by (auto simp: filter_empty_conv ReactionRate_eq_def)
  then show ?thesis
    by (simp add: addReaction_def reaction_from_Rate_def)
qed

theorem addReaction_duplicate_rate_witness:
  "R1 \<in> set (reactions net_R1) \<and> name (rate R1) = name (rate R1_again)
   \<and> addReaction R1_again net_R1 = (Inl DuplicateRate, net_R1)"
proof -
  have h1: "R1 \<in> set (reactions net_R1)"
    by (simp add: net_R1_eq)
  have h2: "name (rate R1) = name (rate R1_again)"
    by (simp add: R1_def R1_again_def UnitReaction_init_def)
  show ?thesis
    using addReaction_duplicate_rate [OF h1 h2] h1 h2 by simp
qed

subsection \<open>The linear graph matrix on the example networks\<close>

text \<open>
  Claim C1, evaluated on the code. After \<^verbatim>\<open>R1 = (E, k1, EA)\<close> alone, the call succeeds, the
  kinetic matrix holds rate \<^verbatim>\<open>k1\<close> at [E][EA] and nothing at [EA][E]; on the cycle
  A\<rightarrow>B, B\<rightarrow>C, C\<rightarrow>A all three calls succeed, no bidirectional edge is created and the
  kinetic matrix is populated along the cycle. In both networks
  \<^verbatim>\<open>linear_graph_matrix\<close> does not return a table with absent cells: for the first
  present kinetic cell the list of matching edges is empty and taking its element 0
  raises \<^verbatim>\<open>IndexError\<close>.
\<close>

theorem linear_graph_matrix_one_direction_raises:
  "addReactions [R1] Reactions_init = (Inr (), net_R1)
   \<and> enzymeStates net_R1 = [st_E, st_EA]
   \<and> kinetic_matrix net_R1 = Inr [[None, Some \<lparr>name = Symbol ''k1'', reactant = None\<rparr>], [None, None]]
   \<and> linear_graph_matrix net_R1 = Inl IndexError
   \<and> addReactions [R_AB, R_BC, R_CA] Reactions_init = (Inr (), net_cycle)
   \<and> enzymeStates net_cycle = [st_A, st_B, st_C]
   \<and> bidirectionalRates net_cycle = []
   \<and> kinetic_matrix net_cycle =
        Inr [[None, Some \<lparr>name = Symbol ''kAB'', reactant = None\<rparr>, None],
             [None, None, Some \<lparr>name = Symbol ''kBC'', reactant = None\<rparr>],
             [Some \<lparr>name = Symbol ''kCA'', reactant = None\<rparr>, None, None]]
   \<and> linear_graph_matrix net_cycle = Inl IndexError"
proof -
  have a: "addReactions [R1] Reactions_init = (Inr (), net_R1)"
    unfolding net_R1_eq by (simp add: net_defs example_defs)
  have b: "addReactions [R_AB, R_BC, R_CA] Reactions_init = (Inr (), net_cycle)"
    unfolding net_cycle_eq by (rule add_cycle)
  have c: "rate R1 = \<lparr>name = Symbol ''k1'', reactant = None\<rparr>" "rate R_AB = \<lparr>name = Symbol ''kAB'', reactant = None\<rparr>"
    "rate R_BC = \<lparr>name = Symbol ''kBC'', reactant = None\<rparr>" "rate R_CA = \<lparr>name = Symbol ''kCA'', reactant = None\<rparr>"
    by (simp_all add: example_defs UnitReaction_init_def)
  have d: "enzymeStates net_R1 = [st_E, st_EA]" "enzymeStates net_cycle = [st_A, st_B, st_C]"
    "bidirectionalRates net_cycle = []"
    by (simp_all add: net_R1_eq net_cycle_eq)
  show ?thesis
    using a b d kinetic_matrix_net_R1 linear_graph_matrix_net_R1
      kinetic_matrix_net_cycle linear_graph_matrix_net_cycle
    by (simp only: c simp_thms)
qed

text \<open>
  Claim C2 as stated fails on the printed form: after \<^verbatim>\<open>R1 = (E, k1, EA)\<close> and then
  \<^verbatim>\<open>R2 = (EA, k-1, E)\<close>, both cells reference edge object 0, and that edge does not
  print as \<^verbatim>\<open>k1//k-1\<close>.
\<close>

theorem linear_graph_edge_str_counterexample:
  "linear_graph_matrix net_R1_R2 = Inr [[None, Some 0], [Some 0, None]]
   \<and> BiDirReaction_str (bidirectionalRates net_R1_R2 ! 0) \<noteq> ''k1//k-1''"
  using linear_graph_matrix_net_R1_R2
  by (simp add: net_R1_R2_eq BiDirReaction_str_def ReactionRate_str_def example_defs net_defs)

text \<open>
  Claim C2, amended. After adding \<^verbatim>\<open>R1 = (E, k1, EA)\<close> and then \<^verbatim>\<open>R2 = (EA, k-1, E)\<close> to
  an empty network, both calls succeed, the states are E, EA in this order, the cells
  [0][1] and [1][0] of the linear graph matrix reference the same edge object (the first
  and only one of the network), and the edge prints as \<^verbatim>\<open>k-1//k1\<close>: its forward leg is
  the reaction whose addition completed the pair. Adding the two in the other order
  gives the edge printed \<^verbatim>\<open>k1//k-1\<close>.
\<close>

theorem linear_graph_same_edge_both_directions:
  "addReactions [R1, R2] Reactions_init = (Inr (), net_R1_R2)
   \<and> enzymeStates net_R1_R2 = [st_E, st_EA]
   \<and> length (bidirectionalRates net_R1_R2) = 1
   \<and> linear_graph_matrix net_R1_R2 = Inr [[None, Some 0], [Some 0, None]]
   \<and> BiDirReaction_str (bidirectionalRates net_R1_R2 ! 0) = ''k-1//k1''
   \<and> addReactions [R2, R1] Reactions_init = (Inr (), net_R2_R1)
   \<and> enzymeStates net_R2_R1 = [st_EA, st_E]
   \<and> linear_graph_matrix net_R2_R1 = Inr [[None, Some 0], [Some 0, None]]
   \<and> BiDirReaction_str (bidirectionalRates net_R2_R1 ! 0) = ''k1//k-1''"
proof -
  have a: "addReactions [R1, R2] Reactions_init = (Inr (), net_R1_R2)"
    unfolding net_R1_R2_eq by (rule add_R1_R2)
  have b: "addReactions [R2, R1] Reactions_init = (Inr (), net_R2_R1)"
    unfolding net_R2_R1_eq by (rule add_R2_R1)
  have c: "BiDirReaction_str (bidirectionalRates net_R1_R2 ! 0) = ''k-1//k1''"
    "BiDirReaction_str (bidirectionalRates net_R2_R1 ! 0) = ''k1//k-1''"
    by (simp_all add: net_R1_R2_eq net_R2_R1_eq BiDirReaction_str_def ReactionRate_str_def
        example_defs net_defs)
  have d: "enzymeStates net_R1_R2 = [st_E, st_EA]" "enzymeStates net_R2_R1 = [st_EA, st_E]"
    "length (bidirectionalRates net_R1_R2) = 1"
    by (simp_all add: net_R1_R2_eq net_R2_R1_eq)
  show ?thesis
    using a b c d linear_graph_matrix_net_R1_R2 linear_graph_matrix_net_R2_R1
    by (simp only: simp_thms)
qed

subsection \<open>The states collection\<close>

text \<open>
  Claim C8. After a run of successful \<^verbatim>\<open>addReaction\<close> calls on an empty network, the
  registered reactions are the reactions passed, in order; the states collection
  contains exactly the states that are source or destination of a registered reaction,
  each once; and its order is the order in which the states are first met when the
  calls are replayed (source before destination within one reaction).
\<close>

theorem states_first_seen_order:
  assumes "addReactions rs Reactions_init = (Inr (), net)"
  shows "reactions net = rs
       \<and> set (enzymeStates net) = from_state ` set (reactions net) \<union> to_state ` set (reactions net)
       \<and> distinct (enzymeStates net)
       \<and> enzymeStates net = first_seen (states_mentioned rs)"
  using replay_reactions [OF assms] replay_states [OF assms]
  by (simp add: set_states_mentioned)

theorem states_first_seen_order_witness:
  "addReactions [R2, R1] Reactions_init = (Inr (), net_R2_R1)
   \<and> reactions net_R2_R1 = [R2, R1]
   \<and> distinct (enzymeStates net_R2_R1)
   \<and> enzymeStates net_R2_R1 = first_seen (states_mentioned [R2, R1])
   \<and> first_seen (states_mentioned [R2, R1]) = [st_EA, st_E]"
proof -
  have h: "addReactions [R2, R1] Reactions_init = (Inr (), net_R2_R1)"
    unfolding net_R2_R1_eq by (rule add_R2_R1)
  have fs: "first_seen (states_mentioned [R2, R1]) = [st_EA, st_E]"
    by (simp add: states_mentioned_def example_defs UnitReaction_init_def)
  show ?thesis
    using states_first_seen_order [OF h] h fs by blast
qed

subsection \<open>Runs that cannot fail\<close>

text \<open>
  Claim C4. When the reactions of a sequence have pairwise distinct rate names and no two
  of them have the same ordered pair (source, destination), replaying the sequence
  through \<^verbatim>\<open>addReaction\<close> on an empty network raises nothing: every call returns
  normally. In particular none raises the duplicate-rate errors, and the
  "identical reactants" error is not raised (no call of \<^verbatim>\<open>addReaction\<close> reaches the
  lookup that raises it).
\<close>

theorem addReactions_never_raises:
  assumes "distinct (map (\<lambda>r. name (rate r)) rs)"
    and "distinct (map (\<lambda>r. (from_state r, to_state r)) rs)"
  shows "\<exists>net. addReactions rs Reactions_init = (Inr (), net)"
  using assms
proof (induction rs rule: rev_induct)
  case Nil
  show ?case by simp
next
  case (snoc r rs)
  then obtain n where n: "addReactions rs Reactions_init = (Inr (), n)"
    by auto
  have rn: "reactions n = rs" by (rule replay_reactions [OF n])
  have "name (rate r) \<notin> (\<lambda>r. name (rate r)) ` set rs"
    using snoc.prems(1) by simp
  then have fresh: "\<forall>x\<in>set (reactions n). name (rate x) \<noteq> name (rate r)"
    unfolding rn using notin_image_neq by fast
  have noedge: "\<forall>bi\<in>set (bidirectionalRates n). \<not> contains_reaction bi (Some r)"
  proof (intro ballI notI)
    fix bi assume bi: "bi \<in> set (bidirectionalRates n)" and c: "contains_reaction bi (Some r)"
    from replay_edge_legs [OF n bi] contains_reaction_leg_name [OF c] fresh
    show False unfolding rn by blast
  qed
  have "length (filter (\<lambda>x. (from_state x, to_state x) = (to_state r, from_state r)) (rs @ [r])) \<le> 1"
    by (rule distinct_filter_le1 [OF snoc.prems(2)])
  then have one: "length (filter (\<lambda>x. from_state x = to_state r \<and> to_state x = from_state r) (reactions n @ [r])) \<le> 1"
    unfolding rn by simp
  from addReaction_succeeds [OF fresh noedge one] obtain net' where "addReaction r n = (Inr (), net')" ..
  with n show ?case unfolding addReactions_snoc_Inr by blast
qed

theorem addReactions_never_raises_witness:
  "distinct (map (\<lambda>r. name (rate r)) [R1, R2])
   \<and> distinct (map (\<lambda>r. (from_state r, to_state r)) [R1, R2])
   \<and> (\<exists>net. addReactions [R1, R2] Reactions_init = (Inr (), net))"
proof -
  have h1: "distinct (map (\<lambda>r. name (rate r)) [R1, R2])"
    by (simp add: example_defs UnitReaction_init_def)
  have h2: "distinct (map (\<lambda>r. (from_state r, to_state r)) [R1, R2])"
    by (simp add: example_defs UnitReaction_init_def)
  show ?thesis
    using addReactions_never_raises [OF h1 h2] h1 h2 by blast
qed

subsection \<open>Reactions and the edges they belong to\<close>

text \<open>
  Claim C3 as stated fails. The calls adding \<^verbatim>\<open>R1 = (E, k1, EA)\<close>, \<^verbatim>\<open>R2 = (EA, k-1, E)\<close>
  and a second reaction from EA to E with another rate, \<^verbatim>\<open>(EA, k-2, E)\<close>, all succeed, and
  then \<^verbatim>\<open>R1\<close> is the reverse leg of two bidirectional edges.
\<close>

theorem edges_per_reaction_counterexample:
  "addReactions [R1, R2, R2_parallel] Reactions_init = (Inr (), net_parallel)
   \<and> reactions net_parallel = [R1, R2, R2_parallel]
   \<and> edges_with R1 net_parallel = 2"
proof -
  have a: "addReactions [R1, R2, R2_parallel] Reactions_init = (Inr (), net_parallel)"
    unfolding net_parallel_eq by (rule add_parallel)
  have b: "reactions net_parallel = [R1, R2, R2_parallel]"
    by (simp add: net_parallel_eq)
  have c: "edges_with R1 net_parallel = 2"
    by (simp add: net_parallel_eq edges_with_def net_defs example_defs)
  from a b c show ?thesis by blast
qed

text \<open>
  Claim C3, amended. After a run of successful \<^verbatim>\<open>addReaction\<close> calls on an empty network
  in which no two reactions have the same ordered pair (source, destination), every
  registered reaction is a leg (forward or reverse) of at most one bidirectional edge;
  it is a leg of exactly one edge when its reverse is registered too, and of none
  otherwise. Every prefix of such a run is such a run, so this holds after each call.
\<close>

theorem edges_per_reaction:
  assumes "addReactions rs Reactions_init = (Inr (), net)"
    and "distinct (map (\<lambda>r. (from_state r, to_state r)) rs)"
    and "x \<in> set rs"
  shows "edges_with x net \<le> 1
       \<and> edges_with x net =
           (if \<exists>y\<in>set rs. from_state y = to_state x \<and> to_state y = from_state x then 1 else 0)"
proof -
  have le: "edges_with x net \<le> 1" by (rule replay_at_most_one [OF assms])
  show ?thesis
  proof (cases "\<exists>y\<in>set rs. from_state y = to_state x \<and> to_state y = from_state x")
    case True
    then obtain y where "y \<in> set rs" "from_state y = to_state x" "to_state y = from_state x"
      by blast
    from replay_paired [OF assms(1) assms(3) this] have "0 < edges_with x net"
      unfolding edges_with_pos .
    with le True show ?thesis by simp
  next
    case False
    have "edges_with x net = 0"
      unfolding edges_with_zero using replay_edge_gives_reverse [OF assms(1)] False by blast
    with False show ?thesis by simp
  qed
qed

theorem edges_per_reaction_witness:
  "addReactions [R1, R2] Reactions_init = (Inr (), net_R1_R2)
   \<and> distinct (map (\<lambda>r. (from_state r, to_state r)) [R1, R2])
   \<and> R1 \<in> set [R1, R2]
   \<and> edges_with R1 net_R1_R2 = 1"
proof -
  have h1: "addReactions [R1, R2] Reactions_init = (Inr (), net_R1_R2)"
    unfolding net_R1_R2_eq by (rule add_R1_R2)
  have h2: "distinct (map (\<lambda>r. (from_state r, to_state r)) [R1, R2])"
    by (simp add: example_defs UnitReaction_init_def)
  have h3: "R1 \<in> set [R1, R2]" by simp
  have rv: "\<exists>y\<in>set [R1, R2]. from_state y = to_state R1 \<and> to_state y = from_state R1"
    by (simp add: example_defs UnitReaction_init_def)
  from edges_per_reaction [OF h1 h2 h3] rv have "edges_with R1 net_R1_R2 = 1"
    by (simp only: if_True)
  with h1 h2 h3 show ?thesis by blast
qed

subsection \<open>Self-loops\<close>

text \<open>
  Claim C10 as stated fails. With the self-loop \<^verbatim>\<open>(E, k1, E)\<close> registered, adding a
  second self-loop on the same state with the new rate \<^verbatim>\<open>k2\<close> does not succeed: the
  reverse search finds two candidates and raises the
  "more than 1 reverse Reaction defined" error.
\<close>

theorem self_loop_counterexample:
  "addReactions [R_loop] Reactions_init = (Inr (), net_loop)
   \<and> reactions net_loop = [R_loop]
   \<and> from_state R_loop2 = to_state R_loop2
   \<and> name (rate R_loop) \<noteq> name (rate R_loop2)
   \<and> fst (addReaction R_loop2 net_loop) = Inl MultipleReverseReactions"
proof -
  have a: "addReactions [R_loop] Reactions_init = (Inr (), net_loop)"
    unfolding net_loop_eq by (simp add: net_defs example_defs Let_def)
  have b: "reactions net_loop = [R_loop]" by (simp add: net_loop_eq)
  have c: "from_state R_loop2 = to_state R_loop2" "name (rate R_loop) \<noteq> name (rate R_loop2)"
    by (simp_all add: example_defs UnitReaction_init_def)
  have d: "fst (addReaction R_loop2 net_loop) = Inl MultipleReverseReactions"
    by (simp add: net_loop_eq net_defs example_defs Let_def)
  from a b c d show ?thesis by blast
qed

text \<open>
  Claim C10, amended. On a network built by successful \<^verbatim>\<open>addReaction\<close> calls, adding a
  reaction whose source equals its destination, whose rate name is new and whose state
  has no self-loop registered yet, succeeds: the reaction is appended, the reverse
  search (run after the append) finds the reaction itself, and one bidirectional edge is
  appended whose forward and reverse legs are both that reaction.
\<close>

theorem self_loop_pairs_with_itself:
  assumes run: "addReactions rs Reactions_init = (Inr (), net)"
    and loop: "from_state r = to_state r"
    and fresh: "\<forall>x\<in>set rs. name (rate x) \<noteq> name (rate r)"
    and no_loop: "\<forall>x\<in>set rs. \<not> (from_state x = from_state r \<and> to_state x = from_state r)"
  shows "\<exists>net'. addReaction r net = (Inr (), net')
           \<and> reactions net' = rs @ [r]
           \<and> bidirectionalRates net' = bidirectionalRates net @ [BiDirReaction_init r r]"
proof -
  let ?P = "\<lambda>x. from_state x = to_state r \<and> to_state x = from_state r"
  have rn: "reactions net = rs" by (rule replay_reactions [OF run])
  have f1: "filter ?P rs = []"
    unfolding filter_empty_conv using no_loop loop by simp
  have f2: "filter ?P [r] = [r]" using loop by simp
  have f: "filter ?P (reactions net @ [r]) = [r]"
    unfolding rn filter_append f1 f2 by simp
  have fresh': "\<forall>x\<in>set (reactions net). name (rate x) \<noteq> name (rate r)"
    unfolding rn by (rule fresh)
  note noedge = replay_no_edge_for_fresh [OF run fresh]
  have "length (filter ?P (reactions net @ [r])) \<le> 1" unfolding f by simp
  from addReaction_succeeds [OF fresh' noedge this]
  obtain net' where a: "addReaction r net = (Inr (), net')" ..
  have e: "bidirectionalRates net' = bidirectionalRates net @ [BiDirReaction_init r r]"
    using addReaction_InrD(5) [OF a] unfolding f by simp
  have "reactions net' = rs @ [r]"
    using addReaction_InrD(1) [OF a] unfolding rn .
  with a e show ?thesis by blast
qed

theorem self_loop_pairs_with_itself_witness:
  "addReactions [R1] Reactions_init = (Inr (), net_R1)
   \<and> from_state R_loop2 = to_state R_loop2
   \<and> name (rate R1) \<noteq> name (rate R_loop2)
   \<and> to_state R1 \<noteq> from_state R_loop2
   \<and> (\<exists>net'. addReaction R_loop2 net_R1 = (Inr (), net')
           \<and> reactions net' = [R1] @ [R_loop2]
           \<and> bidirectionalRates net' = bidirectionalRates net_R1 @ [BiDirReaction_init R_loop2 R_loop2])"
proof -
  have h1: "addReactions [R1] Reactions_init = (Inr (), net_R1)"
    unfolding net_R1_eq by (simp add: net_defs example_defs)
  have h2: "from_state R_loop2 = to_state R_loop2"
    by (simp add: example_defs UnitReaction_init_def)
  have h3: "\<forall>x\<in>set [R1]. name (rate x) \<noteq> name (rate R_loop2)"
    by (simp add: example_defs UnitReaction_init_def)
  have h4: "\<forall>x\<in>set [R1]. \<not> (from_state x = from_state R_loop2 \<and> to_state x = from_state R_loop2)"
    by (simp add: example_defs UnitReaction_init_def)
  have h5: "name (rate R1) \<noteq> name (rate R_loop2)" "to_state R1 \<noteq> from_state R_loop2"
    by (simp_all add: example_defs UnitReaction_init_def)
  from self_loop_pairs_with_itself [OF h1 h2 h3 h4] h1 h2 h5 show ?thesis by blast
qed

subsection \<open>The kinetic matrix\<close>

text \<open>
  Claim C7. \<^verbatim>\<open>reaction_from_Reactants\<close> returns \<^verbatim>\<open>None\<close> when no registered reaction has
  the given ordered endpoints, the reaction when exactly one has, and raises the
  "identical reactants" error when more than one has. \<^verbatim>\<open>kinetic_matrix\<close> queries it for every
  ordered pair of states, the diagonal included: when every pair has at most one reaction,
  it returns the N\<times>N table (N the number of states, rows and columns in states order)
  whose cell [i][j] is the rate of the reaction from state i to state j, or absent when
  there is none; when some pair has more than one, it raises that same error.
\<close>

theorem kinetic_matrix_cells:
  "reaction_from_Reactants fs ts net =
     (case filter (\<lambda>x. from_state x = fs \<and> to_state x = ts) (reactions net) of
        [] \<Rightarrow> Inr None
      | [r] \<Rightarrow> Inr (Some r)
      | _ \<Rightarrow> Inl MultipleMatchingReactions)
   \<and> kinetic_matrix net =
       (if unique_endpoints net
        then Inr (map (\<lambda>a. map (\<lambda>b. kcell net a b) (enzymeStates net)) (enzymeStates net))
        else Inl MultipleMatchingReactions)
   \<and> (kinetic_matrix net = Inr m \<longrightarrow>
        length m = length (enzymeStates net)
        \<and> (\<forall>i<length (enzymeStates net).
              length (m ! i) = length (enzymeStates net)
              \<and> (\<forall>j<length (enzymeStates net).
                    m ! i ! j = kcell net (enzymeStates net ! i) (enzymeStates net ! j))))"
proof (intro conjI impI)
  show "reaction_from_Reactants fs ts net =
     (case filter (\<lambda>x. from_state x = fs \<and> to_state x = ts) (reactions net) of
        [] \<Rightarrow> Inr None
      | [r] \<Rightarrow> Inr (Some r)
      | _ \<Rightarrow> Inl MultipleMatchingReactions)"
    by (rule reaction_from_Reactants_eq)
  show "kinetic_matrix net =
       (if unique_endpoints net
        then Inr (map (\<lambda>a. map (\<lambda>b. kcell net a b) (enzymeStates net)) (enzymeStates net))
        else Inl MultipleMatchingReactions)"
    by (rule kinetic_matrix_eq)
next
  assume r: "kinetic_matrix net = Inr m"
  have "unique_endpoints net" by (rule kinetic_matrix_Inr [OF r])
  from kinetic_matrix_ok [OF this] r
  have m: "m = map (\<lambda>a. map (\<lambda>b. kcell net a b) (enzymeStates net)) (enzymeStates net)"
    by simp
  show "length m = length (enzymeStates net)"
    unfolding m by simp
  show "\<forall>i<length (enzymeStates net).
          length (m ! i) = length (enzymeStates net)
          \<and> (\<forall>j<length (enzymeStates net).
                m ! i ! j = kcell net (enzymeStates net ! i) (enzymeStates net ! j))"
    unfolding m by simp
qed

theorem kinetic_matrix_cells_witness:
  "kinetic_matrix net_R1_R2 =
     Inr [[None, Some \<lparr>name = Symbol ''k1'', reactant = None\<rparr>],
          [Some \<lparr>name = Symbol ''k-1'', reactant = None\<rparr>, None]]
   \<and> enzymeStates net_R1_R2 = [st_E, st_EA]"
proof -
  have u: "unique_endpoints net_R1_R2"
    by (simp add: unique_endpoints_def net_R1_R2_eq example_defs UnitReaction_init_def)
  note t = kinetic_matrix_cells [of st_E st_EA net_R1_R2 "[]", THEN conjunct2, THEN conjunct1]
  have k: "kinetic_matrix net_R1_R2 =
      Inr (map (\<lambda>a. map (\<lambda>b. kcell net_R1_R2 a b) (enzymeStates net_R1_R2))
               (enzymeStates net_R1_R2))"
    using t u by (simp only: if_True)
  have e: "enzymeStates net_R1_R2 = [st_E, st_EA]"
    by (simp add: net_R1_R2_eq)
  have c: "kcell net_R1_R2 st_E st_E = None"
    "kcell net_R1_R2 st_E st_EA = Some \<lparr>name = Symbol ''k1'', reactant = None\<rparr>"
    "kcell net_R1_R2 st_EA st_E = Some \<lparr>name = Symbol ''k-1'', reactant = None\<rparr>"
    "kcell net_R1_R2 st_EA st_EA = None"
    by (simp_all add: kcell_def net_R1_R2_eq example_defs UnitReaction_init_def)
  show ?thesis
    unfolding k e by (simp only: list.map c simp_thms)
qed

end
